theory Spec2Isabelle
  imports Complex_Main "HOL-Library.Word"
begin

section \<open>Values of the JavaScript runtime\<close>

subsection \<open>Strings\<close>

text \<open>
  A JavaScript string is a sequence of 16-bit code units, and \<^verbatim>\<open>length\<close> counts code
  units. \<open>lit\<close> writes an ASCII literal of the source as such a sequence.
\<close>

type_synonym code_unit = "16 word"

type_synonym js_string = "code_unit list"

definition lit :: "string \<Rightarrow> js_string" where
  "lit s = map of_char s"

text \<open>
  \<^verbatim>\<open>String.prototype.trim\<close> removes the leading and the trailing run of white space and
  line terminators: TAB, LF, VT, FF, CR, SPACE, NBSP, U+1680, U+2000 to U+200A, U+2028,
  U+2029, U+202F, U+205F, U+3000 and U+FEFF.
\<close>

definition is_white_space :: "code_unit \<Rightarrow> bool" where
  "is_white_space c \<longleftrightarrow>
     (0x0009 \<le> c \<and> c \<le> 0x000D) \<or> c = 0x0020 \<or> c = 0x00A0 \<or> c = 0x1680 \<or>
     (0x2000 \<le> c \<and> c \<le> 0x200A) \<or> c = 0x2028 \<or> c = 0x2029 \<or> c = 0x202F \<or>
     c = 0x205F \<or> c = 0x3000 \<or> c = 0xFEFF"

definition trim :: "js_string \<Rightarrow> js_string" where
  "trim s = rev (dropWhile is_white_space (rev (dropWhile is_white_space s)))"

subsection \<open>Numbers\<close>

text \<open>
  A JavaScript number is NaN, one of the two infinities, or a finite double. Every finite
  double is a rational number and doubles compare as the rationals they denote, so the
  finite numbers are modelled by \<open>rat\<close> (a superset of the doubles; \<open>+0\<close> and \<open>-0\<close>, which
  compare equal and print alike, are both \<open>Finite 0\<close>). The conversions below yield and
  print doubles as ECMAScript says; a rational that is no double is no number of a run.
\<close>

datatype js_number = Finite rat | NaN | PosInfinity | NegInfinity

text \<open>The relational operator \<^verbatim>\<open>x <= y\<close> on numbers: false as soon as one side is NaN.\<close>

fun js_le :: "js_number \<Rightarrow> js_number \<Rightarrow> bool" where
  "js_le NaN _ = False"
| "js_le _ NaN = False"
| "js_le NegInfinity _ = True"
| "js_le _ PosInfinity = True"
| "js_le (Finite a) (Finite b) = (a \<le> b)"
| "js_le _ _ = False"

text \<open>\<^verbatim>\<open>x >= y\<close> on numbers.\<close>

definition js_ge :: "js_number \<Rightarrow> js_number \<Rightarrow> bool" where
  "js_ge x y = js_le y x"

text \<open>The \<^verbatim>\<open>length\<close> of a string, as a number.\<close>

definition js_length :: "js_string \<Rightarrow> js_number" where
  "js_length s = Finite (of_nat (length s))"

subsection \<open>The nearest double\<close>

text \<open>
  The number value of a real: the nearest double, the one with the even significand when
  two are equally near, an infinity from \<open>2^1024 - 2^970\<close> on. A double is \<open>m * 2^e\<close>
  with \<open>m < 2^53\<close> and \<open>- 1074 \<le> e \<le> 971\<close>. \<open>floor_log2 q\<close> is the \<open>k\<close> with
  \<open>2^k \<le> q < 2^(k + 1)\<close>, for \<open>q > 0\<close>.
\<close>

definition pow2 :: "int \<Rightarrow> rat" where
  "pow2 k = (if 0 \<le> k then of_int (2 ^ nat k) else 1 / of_int (2 ^ nat (- k)))"

function bit_length :: "int \<Rightarrow> int" where
  "bit_length n = (if n \<le> 0 then 0 else 1 + bit_length (n div 2))"
  by pat_completeness auto
termination
  by (relation "measure nat") auto

declare bit_length.simps [simp del]

definition floor_log2 :: "rat \<Rightarrow> int" where
  "floor_log2 q =
     (let (n, d) = quotient_of q;
          k = bit_length n - bit_length d
      in if pow2 k \<le> q then k else k - 1)"

definition round_half_even :: "rat \<Rightarrow> int" where
  "round_half_even x =
     (let f = \<lfloor>x\<rfloor>; r = x - of_int f
      in if r < 1 / 2 then f else if 1 / 2 < r then f + 1 else if even f then f else f + 1)"

text \<open>
  The significand \<open>m\<close> is the quotient by \<open>2^e\<close>, rounded, where \<open>e\<close> is 52 below the
  binary exponent of the value and at least \<open>- 1074\<close>. As \<open>m \<le> 2^53\<close>, the result
  \<open>m * 2^e\<close> reaches \<open>2^1024\<close> when \<open>e > 971\<close>, or \<open>e = 971\<close> and \<open>m = 2^53\<close>.
\<close>

definition round_to_double :: "rat \<Rightarrow> js_number" where
  "round_to_double q =
     (if q = 0 then Finite 0
      else
        (let a = \<bar>q\<bar>;
             e = max (floor_log2 a - 52) (- 1074);
             m = round_half_even (a / pow2 e);
             r = of_int m * pow2 e
         in if 971 < e \<or> (e = 971 \<and> 2 ^ 53 \<le> m)
            then (if q < 0 then NegInfinity else PosInfinity)
            else Finite (if q < 0 then - r else r)))"

subsection \<open>Number to string\<close>

definition pow10 :: "int \<Rightarrow> rat" where
  "pow10 k = (if 0 \<le> k then of_int (10 ^ nat k) else 1 / of_int (10 ^ nat (- k)))"

definition digit_unit :: "int \<Rightarrow> code_unit" where
  "digit_unit d = 0x30 + of_int d"

function digits_of :: "int \<Rightarrow> js_string" where
  "digits_of n =
     (if n < 10 then [digit_unit n] else digits_of (n div 10) @ [digit_unit (n mod 10)])"
  by pat_completeness auto
termination
  by (relation "measure nat") auto

declare digits_of.simps [simp del]

function digit_count :: "int \<Rightarrow> int" where
  "digit_count n = (if n \<le> 0 then 0 else 1 + digit_count (n div 10))"
  by pat_completeness auto
termination
  by (relation "measure nat") auto

declare digit_count.simps [simp del]

text \<open>The \<open>n\<close> with \<open>10^(n - 1) \<le> q < 10^n\<close>, for \<open>q > 0\<close>.\<close>

definition decimal_exponent :: "rat \<Rightarrow> int" where
  "decimal_exponent q =
     (let (n, d) = quotient_of q;
          k = digit_count n - digit_count d
      in if pow10 k \<le> q then k + 1 else k)"

text \<open>
  \<^verbatim>\<open>Number.prototype.toString\<close> in radix 10 prints the digits of the integer \<open>s\<close> where
  \<open>k \<ge> 1\<close>, \<open>10^(k - 1) \<le> s < 10^k\<close>, the number value of \<open>s * 10^(n - k)\<close> is the number
  printed and \<open>k\<close> is as small as possible; of several such \<open>s\<close>, the one for which
  \<open>s * 10^(n - k)\<close> is nearest to the number, as engines print it. For \<open>k\<close> digits the
  two candidates are the
  multiples of \<open>10^(n - k)\<close> just below and just above the number \<open>a\<close>, where \<open>n\<close> is its
  decimal exponent; \<open>candidate\<close> gives the nearer of those that read back as \<open>a\<close>, with
  its exponent.
\<close>

definition candidate :: "rat \<Rightarrow> int \<Rightarrow> int \<Rightarrow> (int \<times> int) option" where
  "candidate a n k =
     (let s = \<lfloor>a / pow10 (n - k)\<rfloor>;
          lo = of_int s * pow10 (n - k);
          hi = of_int (s + 1) * pow10 (n - k);
          up = (if s + 1 = 10 ^ nat k then (10 ^ nat (k - 1), n + 1) else (s + 1, n));
          lo_ok = (round_to_double lo = Finite a);
          hi_ok = (round_to_double hi = Finite a)
      in if lo_ok \<and> (\<not> hi_ok \<or> a - lo \<le> hi - a) then Some (s, n)
         else if hi_ok then Some up
         else None)"

text \<open>
  The shortest digits: the first \<open>k\<close> of the list with a candidate. Seventeen digits
  tell any two doubles apart, so for a double the search ends there at the latest (a
  rational that is no double has no candidate and gets its first seventeen digits).
\<close>

fun shortest :: "rat \<Rightarrow> int \<Rightarrow> int list \<Rightarrow> int \<times> int" where
  "shortest a n [] = (\<lfloor>a / pow10 (n - 17)\<rfloor>, n)"
| "shortest a n (k # ks) =
     (case candidate a n k of Some c \<Rightarrow> c | None \<Rightarrow> shortest a n ks)"

text \<open>
  The text for the digits \<open>ds\<close> (there are \<open>k\<close> of them) and the exponent \<open>n\<close>: the
  digits and \<open>n - k\<close> zeros when \<open>k \<le> n \<le> 21\<close>; a point after \<open>n\<close> digits when
  \<open>0 < n \<le> 21\<close>; \<^verbatim>\<open>0.\<close>, \<open>- n\<close> zeros and the digits when \<open>- 6 < n \<le> 0\<close>; else the
  exponent notation, with \<open>n - 1\<close> after \<^verbatim>\<open>e\<close>.
\<close>

definition format_digits :: "js_string \<Rightarrow> int \<Rightarrow> js_string" where
  "format_digits ds n =
     (let k = int (length ds)
      in if k \<le> n \<and> n \<le> 21 then ds @ replicate (nat (n - k)) 0x30
         else if 0 < n \<and> n \<le> 21 then take (nat n) ds @ lit ''.'' @ drop (nat n) ds
         else if - 6 < n \<and> n \<le> 0 then lit ''0.'' @ replicate (nat (- n)) 0x30 @ ds
         else
           (let e = n - 1;
                ex = (if e < 0 then lit ''-'' else lit ''+'') @ digits_of \<bar>e\<bar>
            in if k = 1 then ds @ lit ''e'' @ ex
               else take 1 ds @ lit ''.'' @ drop 1 ds @ lit ''e'' @ ex))"

fun number_toString :: "js_number \<Rightarrow> js_string" where
  "number_toString NaN = lit ''NaN''"
| "number_toString PosInfinity = lit ''Infinity''"
| "number_toString NegInfinity = lit ''-Infinity''"
| "number_toString (Finite q) =
     (if q = 0 then lit ''0''
      else
        (let a = \<bar>q\<bar>;
             (s, n) = shortest a (decimal_exponent a)
                        [1, 2, 3, 4, 5, 6, 7, 8, 9, 10, 11, 12, 13, 14, 15, 16, 17]
         in (if q < 0 then lit ''-'' else []) @ format_digits (digits_of s) n))"

declare number_toString.simps [simp del]

subsection \<open>String to number\<close>

definition is_digit :: "code_unit \<Rightarrow> bool" where
  "is_digit c \<longleftrightarrow> 0x30 \<le> c \<and> c \<le> 0x39"

text \<open>The value of a character as a digit in a radix up to 16.\<close>

definition unit_digit :: "code_unit \<Rightarrow> int option" where
  "unit_digit c =
     (if 0x30 \<le> c \<and> c \<le> 0x39 then Some (uint (c - 0x30))
      else if 0x61 \<le> c \<and> c \<le> 0x66 then Some (uint (c - 0x61) + 10)
      else if 0x41 \<le> c \<and> c \<le> 0x46 then Some (uint (c - 0x41) + 10)
      else None)"

definition is_radix_digit :: "int \<Rightarrow> code_unit \<Rightarrow> bool" where
  "is_radix_digit b c = (case unit_digit c of Some d \<Rightarrow> d < b | None \<Rightarrow> False)"

definition radix_value :: "int \<Rightarrow> js_string \<Rightarrow> int" where
  "radix_value b ds =
     foldl (\<lambda>n c. b * n + (case unit_digit c of Some d \<Rightarrow> d | None \<Rightarrow> 0)) 0 ds"

text \<open>\<^verbatim>\<open>0x\<close>, \<^verbatim>\<open>0o\<close> and \<^verbatim>\<open>0b\<close> literals: the digits after the prefix, in radix \<open>b\<close>.\<close>

definition radix_literal :: "int \<Rightarrow> js_string \<Rightarrow> js_number" where
  "radix_literal b ds =
     (if ds \<noteq> [] \<and> list_all (is_radix_digit b) ds
      then round_to_double (of_int (radix_value b ds)) else NaN)"

text \<open>
  An optional exponent part: nothing (exponent 0), or \<^verbatim>\<open>e\<close> or \<^verbatim>\<open>E\<close>, an optional sign
  and at least one digit, up to the end of the text.
\<close>

definition parse_exponent :: "js_string \<Rightarrow> int option" where
  "parse_exponent r =
     (case r of
        [] \<Rightarrow> Some 0
      | c # r1 \<Rightarrow>
          if c = 0x65 \<or> c = 0x45 then
            (let neg = (r1 \<noteq> [] \<and> hd r1 = 0x2D);
                 ds = (if r1 \<noteq> [] \<and> (hd r1 = 0x2D \<or> hd r1 = 0x2B) then tl r1 else r1)
             in if ds \<noteq> [] \<and> list_all is_digit ds
                then Some (if neg then - radix_value 10 ds else radix_value 10 ds)
                else None)
          else None)"

text \<open>
  An unsigned decimal literal: \<^verbatim>\<open>Infinity\<close>, or digits with an optional fraction and an
  optional exponent, with a digit before or after the point. The exact value of the
  literal is rounded to the nearest double.
\<close>

definition unsigned_decimal :: "js_string \<Rightarrow> js_number" where
  "unsigned_decimal u =
     (if u = lit ''Infinity'' then PosInfinity
      else
        (let ip = takeWhile is_digit u;
             r1 = dropWhile is_digit u;
             point = (r1 \<noteq> [] \<and> hd r1 = 0x2E);
             fp = (if point then takeWhile is_digit (tl r1) else []);
             r2 = (if point then dropWhile is_digit (tl r1) else r1)
         in if ip = [] \<and> fp = [] then NaN
            else
              (case parse_exponent r2 of
                 None \<Rightarrow> NaN
               | Some e \<Rightarrow>
                   (let m = of_int (radix_value 10 ip)
                            + of_int (radix_value 10 fp) / 10 ^ length fp
                    in round_to_double
                         (if 0 \<le> e then m * 10 ^ nat e else m / 10 ^ nat (- e))))))"

fun js_negate :: "js_number \<Rightarrow> js_number" where
  "js_negate (Finite q) = Finite (- q)"
| "js_negate NaN = NaN"
| "js_negate PosInfinity = NegInfinity"
| "js_negate NegInfinity = PosInfinity"

text \<open>
  The unary \<^verbatim>\<open>+\<close> on a string: white space around the text is dropped, the empty text
  is 0, a text that is no numeric literal is NaN.
\<close>

definition to_number :: "js_string \<Rightarrow> js_number" where
  "to_number s =
     (let t = trim s
      in case t of
           [] \<Rightarrow> Finite 0
         | c # r \<Rightarrow>
             if c = 0x30 \<and> r \<noteq> [] \<and> (hd r = 0x78 \<or> hd r = 0x58) then radix_literal 16 (tl r)
             else if c = 0x30 \<and> r \<noteq> [] \<and> (hd r = 0x6F \<or> hd r = 0x4F) then radix_literal 8 (tl r)
             else if c = 0x30 \<and> r \<noteq> [] \<and> (hd r = 0x62 \<or> hd r = 0x42) then radix_literal 2 (tl r)
             else if c = 0x2D then js_negate (unsigned_decimal r)
             else if c = 0x2B then unsigned_decimal r
             else unsigned_decimal t)"

section \<open>The project type\<close>

datatype ProjectStatus = Active | Finished

text \<open>
  The fields of class \<^verbatim>\<open>Project\<close>; the constructor only stores its five arguments.
  (\<open>id'\<close> is the field \<^verbatim>\<open>id\<close>; a prime marks a name that HOL already uses.)
\<close>

record Project =
  id' :: js_string
  title :: js_string
  description :: js_string
  people :: js_number
  status :: ProjectStatus

section \<open>Objects, arrays and listeners\<close>

text \<open>
  Projects and arrays are objects, known by their address. An environment holds the
  project at each address, the array at each address (an array of projects is the list of
  their addresses), the next address to allocate, and the rest of what a listener may
  reach (the views, the page), of a type \<open>'w\<close> that the store does not look into. What
  is stored at an address that is not allocated yet is never read.
\<close>

type_synonym addr = nat

record 'w env =
  objects :: "addr \<Rightarrow> Project"
  arrays :: "addr \<Rightarrow> addr list"
  next_addr :: addr
  world :: 'w

text \<open>\<^verbatim>\<open>new Project(...)\<close>: a new object; the result is its address.\<close>

definition new_Project :: "Project \<Rightarrow> 'w env \<Rightarrow> addr \<times> 'w env" where
  "new_Project p e =
     (next_addr e, e\<lparr>objects := (objects e)(next_addr e := p), next_addr := Suc (next_addr e)\<rparr>)"

text \<open>A new array object holding \<open>xs\<close>; the result is its address.\<close>

definition new_array :: "addr list \<Rightarrow> 'w env \<Rightarrow> addr \<times> 'w env" where
  "new_array xs e =
     (next_addr e, e\<lparr>arrays := (arrays e)(next_addr e := xs), next_addr := Suc (next_addr e)\<rparr>)"

text \<open>
  \<^verbatim>\<open>a.slice()\<close>: a new array with the elements of the array at \<open>a\<close>, which are the same
  objects.
\<close>

definition slice :: "addr \<Rightarrow> 'w env \<Rightarrow> addr \<times> 'w env" where
  "slice a e = new_array (arrays e a) e"

text \<open>\<^verbatim>\<open>a.push(x)\<close>: the array at \<open>a\<close> itself gets \<open>x\<close> at its end.\<close>

definition push :: "addr \<Rightarrow> addr \<Rightarrow> 'w env \<Rightarrow> 'w env" where
  "push a x e = e\<lparr>arrays := (arrays e)(a := arrays e a @ [x])\<rparr>"

text \<open>The projects that the array at \<open>a\<close> holds, as they are now.\<close>

definition array_projects :: "'w env \<Rightarrow> addr \<Rightarrow> Project list" where
  "array_projects e a = map (objects e) (arrays e a)"

text \<open>
  \<^verbatim>\<open>type Listener<T> = (items: T[]) => void\<close>: a listener receives (the address of) an
  array and acts on the environment.
\<close>

type_synonym 'w listener = "addr \<Rightarrow> 'w env \<Rightarrow> 'w env"

section \<open>The store\<close>

text \<open>
  The state of the program: the two private fields of the one \<^verbatim>\<open>ProjectState\<close> instance
  (\<open>listeners\<close>, inherited from \<^verbatim>\<open>State\<close>, and \<open>projects\<close>, a reference to an array), and
  the environment. \<open>calls\<close> is a record of the listener calls made so far, kept for
  stating properties only: the index of the listener called, the address it was handed
  and the projects of that array at the call. A listener acts on the environment; one
  that calls back into the store while it is being notified is not modelled.
\<close>

record 'w app =
  listeners :: "'w listener list"
  projects :: addr
  env :: "'w env"
  calls :: "(nat \<times> addr \<times> Project list) list"

text \<open>The store's list of projects.\<close>

definition project_list :: "'w app \<Rightarrow> Project list" where
  "project_list s = array_projects (env s) (projects s)"

text \<open>\<^verbatim>\<open>State.addListener\<close>: \<^verbatim>\<open>this.listeners.push(listener)\<close>.\<close>

definition addListener :: "'w listener \<Rightarrow> 'w app \<Rightarrow> 'w app" where
  "addListener listener s = s\<lparr>listeners := listeners s @ [listener]\<rparr>"

text \<open>One turn of the loop: \<^verbatim>\<open>listener(this.projects.slice())\<close> for the listener at index \<open>i\<close>.\<close>

definition call_listener :: "nat \<Rightarrow> 'w listener \<Rightarrow> 'w app \<Rightarrow> 'w app" where
  "call_listener i listener s =
     (let (c, e) = slice (projects s) (env s)
      in s\<lparr>env := listener c e, calls := calls s @ [(i, c, array_projects e c)]\<rparr>)"

text \<open>\<^verbatim>\<open>for (const listener of this.listeners) { ... }\<close>, from index \<open>i\<close> on.\<close>

fun notify_from :: "nat \<Rightarrow> 'w listener list \<Rightarrow> 'w app \<Rightarrow> 'w app" where
  "notify_from i [] s = s"
| "notify_from i (listener # ls) s = notify_from (Suc i) ls (call_listener i listener s)"

definition notify :: "'w app \<Rightarrow> 'w app" where
  "notify s = notify_from 0 (listeners s) s"

text \<open>
  \<^verbatim>\<open>ProjectState.addProjects\<close>. \<open>rnd\<close> is the number that \<^verbatim>\<open>Math.random()\<close> returns in
  this call.
\<close>

definition addProjects ::
  "js_string \<Rightarrow> js_string \<Rightarrow> js_number \<Rightarrow> js_number \<Rightarrow> 'w app \<Rightarrow> 'w app" where
  "addProjects title' description' people' rnd s =
     (let (project, e) =
            new_Project \<lparr>id' = number_toString rnd, title = title',
                         description = description',
                         people = people', status = Active\<rparr> (env s)
      in notify (s\<lparr>env := push (projects s) project e\<rparr>))"

section \<open>Validation\<close>

datatype js_value = Str js_string | Num js_number

text \<open>
  \<^verbatim>\<open>interface Validatable\<close>: an optional field that is absent (or \<^verbatim>\<open>undefined\<close>) is
  \<open>None\<close>. (\<open>min'\<close> and \<open>max'\<close> are the fields \<^verbatim>\<open>min\<close> and \<^verbatim>\<open>max\<close>.)
\<close>

record Validatable =
  "value" :: js_value
  required :: "bool option"
  minLength :: "js_number option"
  maxLength :: "js_number option"
  min' :: "js_number option"
  max' :: "js_number option"

text \<open>\<^verbatim>\<open>value.toString()\<close>: a string is its own text.\<close>

fun toString :: "js_value \<Rightarrow> js_string" where
  "toString (Str s) = s"
| "toString (Num n) = number_toString n"

text \<open>
  \<^verbatim>\<open>validate\<close>. Each \<^verbatim>\<open>if\<close> of the source is one line of the chain: its condition
  (\<^verbatim>\<open>required\<close> is truthy only when it is \<^verbatim>\<open>true\<close>; \<^verbatim>\<open>!= null\<close> holds of a bound that is
  present; \<^verbatim>\<open>typeof\<close> tells a string from a number) and its assignment to \<^verbatim>\<open>isValid\<close>.
\<close>

definition validate :: "Validatable \<Rightarrow> bool" where
  "validate validatableInput =
     (let isValid = True;
          isValid =
            (if required validatableInput = Some True
             then isValid \<and> length (trim (toString (value validatableInput))) \<noteq> 0
             else isValid);
          isValid =
            (case (minLength validatableInput, value validatableInput) of
               (Some bound, Str s) \<Rightarrow> isValid \<and> js_ge (js_length s) bound
             | _ \<Rightarrow> isValid);
          isValid =
            (case (maxLength validatableInput, value validatableInput) of
               (Some bound, Str s) \<Rightarrow> isValid \<and> js_le (js_length s) bound
             | _ \<Rightarrow> isValid);
          isValid =
            (case (min' validatableInput, value validatableInput) of
               (Some bound, Num n) \<Rightarrow> isValid \<and> js_ge n bound
             | _ \<Rightarrow> isValid);
          isValid =
            (case (max' validatableInput, value validatableInput) of
               (Some bound, Num n) \<Rightarrow> isValid \<and> js_le n bound
             | _ \<Rightarrow> isValid)
      in isValid)"

section \<open>The views\<close>

subsection \<open>The page\<close>

datatype list_type = active | finished

text \<open>
  A \<^verbatim>\<open>ProjectList\<close>: its array \<^verbatim>\<open>assignedProjects\<close> and the rows of its \<^verbatim>\<open>ul\<close> element
  (the text of each \<^verbatim>\<open>li\<close>). The program builds one list of each \<^verbatim>\<open>type\<close>, so a list is
  known by its type.
\<close>

record ProjectList =
  assignedProjects :: addr
  listEle :: "js_string list"

text \<open>A \<^verbatim>\<open>ProjectInput\<close>: the \<^verbatim>\<open>value\<close> of each of its three input elements.\<close>

record ProjectInput =
  titleInputElement :: js_string
  descriptionInputElement :: js_string
  peopleInputElement :: js_string

text \<open>
  What the listeners and handlers of the program act on: the form, the two lists, the
  messages shown by \<^verbatim>\<open>alert\<close> and the lines written by \<^verbatim>\<open>console.log\<close>.
\<close>

record page =
  projectInput :: ProjectInput
  projectLists :: "list_type \<Rightarrow> ProjectList"
  alerts :: "js_string list"
  console :: "(js_string \<times> js_string \<times> js_number) list"

subsection \<open>ProjectList\<close>

text \<open>
  \<^verbatim>\<open>renderProjects\<close>: the \<^verbatim>\<open>ul\<close> is emptied, then gets one \<^verbatim>\<open>li\<close> for each assigned
  project, with its title as text. (In \<^verbatim>\<open>project-list.ts\<close> the row is built by
  \<^verbatim>\<open>ProjectItem\<close>, which is not among the sources.)
\<close>

definition renderProjects :: "list_type \<Rightarrow> page env \<Rightarrow> page env" where
  "renderProjects t e =
     (let this = projectLists (world e) t;
          rows = map (\<lambda>projItem. title (objects e projItem)) (arrays e (assignedProjects this))
      in e\<lparr>world := (world e)\<lparr>projectLists :=
             (projectLists (world e))(t := this\<lparr>listEle := rows\<rparr>)\<rparr>\<rparr>)"

text \<open>
  The listener that \<^verbatim>\<open>configure\<close> registers for the list of type \<open>t\<close>:
  \<^verbatim>\<open>projects.filter(...)\<close> builds a new array, which becomes \<^verbatim>\<open>assignedProjects\<close>, and the
  list is rendered again.
\<close>

definition list_listener :: "list_type \<Rightarrow> page listener" where
  "list_listener t projs e =
     (let (a, e1) = new_array
            (filter (\<lambda>proj. if t = active then status (objects e proj) = Active
                             else status (objects e proj) = Finished) (arrays e projs)) e;
          this = projectLists (world e1) t;
          e2 = e1\<lparr>world := (world e1)\<lparr>projectLists :=
                 (projectLists (world e1))(t := this\<lparr>assignedProjects := a\<rparr>)\<rparr>\<rparr>
      in renderProjects t e2)"

subsection \<open>ProjectInput\<close>

text \<open>
  \<^verbatim>\<open>gatherUserInput\<close>: the three entered texts or, after the alert, nothing
  (\<^verbatim>\<open>undefined\<close>).
\<close>

definition gatherUserInput :: "page \<Rightarrow> (js_string \<times> js_string \<times> js_number) option \<times> page" where
  "gatherUserInput w =
     (let enteredTitle = titleInputElement (projectInput w);
          enteredDescription = descriptionInputElement (projectInput w);
          enterdPeople = peopleInputElement (projectInput w);
          titleValidatable =
            \<lparr>value = Str enteredTitle, required = Some True, minLength = None,
             maxLength = None, min' = None, max' = None\<rparr>;
          descriptionValidatable =
            \<lparr>value = Str enteredDescription, required = Some True,
             minLength = Some (Finite 5), maxLength = None, min' = None, max' = None\<rparr>;
          peopleValidatable =
            \<lparr>value = Num (to_number enterdPeople), required = Some True, minLength = None,
             maxLength = None, min' = Some (Finite 1), max' = Some (Finite 5)\<rparr>
      in if \<not> validate titleValidatable \<or> \<not> validate descriptionValidatable
            \<or> \<not> validate peopleValidatable
         then (None, w\<lparr>alerts := alerts w @ [lit ''Invalid Input, please try again!'']\<rparr>)
         else (Some (enteredTitle, enteredDescription, to_number enterdPeople), w))"

definition clearInputs :: "page \<Rightarrow> page" where
  "clearInputs w =
     w\<lparr>projectInput := \<lparr>titleInputElement = [], descriptionInputElement = [],
                         peopleInputElement = []\<rparr>\<rparr>"

definition on_world :: "('w \<Rightarrow> 'w) \<Rightarrow> 'w app \<Rightarrow> 'w app" where
  "on_world f s = s\<lparr>env := (env s)\<lparr>world := f (world (env s))\<rparr>\<rparr>"

text \<open>
  \<^verbatim>\<open>submitHandler\<close>, with the number \<open>rnd\<close> that \<^verbatim>\<open>Math.random()\<close> returns if the store is
  called. (\<^verbatim>\<open>event.preventDefault()\<close> acts on the event only.)
\<close>

definition submitHandler :: "js_number \<Rightarrow> page app \<Rightarrow> page app" where
  "submitHandler rnd s =
     (let (userInput, w) = gatherUserInput (world (env s));
          s1 = on_world (\<lambda>_. w) s
      in case userInput of
           Some (title', desc, people') \<Rightarrow>
             (let s2 = addProjects title' desc people' rnd s1;
                  s3 = on_world (\<lambda>w. w\<lparr>console := console w @ [(title', desc, people')]\<rparr>) s2
              in on_world clearInputs s3)
         | None \<Rightarrow> s1)"

subsection \<open>The program at start\<close>

text \<open>
  The state once the top level has run: the store with its empty array (address 0), the
  form, then the list of active and the list of finished projects, each with its own
  empty \<^verbatim>\<open>assignedProjects\<close> (addresses 1 and 2) and its listener registered, in this
  order. No project exists yet.
\<close>

definition start :: "page app" where
  "start =
     addListener (list_listener finished) (addListener (list_listener active)
     \<lparr>listeners = [],
      projects = 0,
      env = \<lparr>objects = (\<lambda>_. \<lparr>id' = [], title = [], description = [], people = NaN,
                                 status = Active\<rparr>),
             arrays = (\<lambda>_. []), next_addr = 3,
             world = \<lparr>projectInput = \<lparr>titleInputElement = [], descriptionInputElement = [],
                                       peopleInputElement = []\<rparr>,
                      projectLists = (\<lambda>t. \<lparr>assignedProjects = (if t = active then 1 else 2),
                                            listEle = []\<rparr>),
                      alerts = [], console = []\<rparr>\<rparr>,
      calls = []\<rparr>)"

text \<open>The user types into the three fields of the form.\<close>

definition enter :: "js_string \<Rightarrow> js_string \<Rightarrow> js_string \<Rightarrow> page app \<Rightarrow> page app" where
  "enter t d p s =
     on_world (\<lambda>w. w\<lparr>projectInput := \<lparr>titleInputElement = t, descriptionInputElement = d,
                                       peopleInputElement = p\<rparr>\<rparr>) s"

section \<open>Moving a project\<close>

text \<open>The index of the first element that satisfies \<open>P\<close>, as \<^verbatim>\<open>Array.prototype.find\<close> searches.\<close>

fun find_index :: "('a \<Rightarrow> bool) \<Rightarrow> 'a list \<Rightarrow> nat option" where
  "find_index P [] = None"
| "find_index P (x # xs) = (if P x then Some 0 else map_option Suc (find_index P xs))"

text \<open>\<^verbatim>\<open>project.status = newStatus\<close> for the project at address \<open>r\<close>.\<close>

definition set_status :: "addr \<Rightarrow> ProjectStatus \<Rightarrow> 'w env \<Rightarrow> 'w env" where
  "set_status r newStatus e =
     e\<lparr>objects := (objects e)(r := (objects e r)\<lparr>status := newStatus\<rparr>)\<rparr>"

text \<open>
  Modelled from the spec: \<^verbatim>\<open>ProjectState.moveProject\<close>, which \<^verbatim>\<open>ProjectList.dropHandler\<close>
  calls and whose file (the store of the modular version) is not among the sources. The
  specification says: ``locates project by id; if found and \<^verbatim>\<open>newStatus\<close> differs from
  current, mutates status and notifies listeners; no-op (silently) if id not found or
  status unchanged''. The project located is the first one with the id; the listeners
  are notified as \<^verbatim>\<open>addProjects\<close> notifies them.
\<close>

definition moveProject :: "js_string \<Rightarrow> ProjectStatus \<Rightarrow> 'w app \<Rightarrow> 'w app" where
  "moveProject projectId newStatus s =
     (case find_index (\<lambda>prj. id' prj = projectId) (project_list s) of
        None \<Rightarrow> s
      | Some i \<Rightarrow>
          if status (project_list s ! i) \<noteq> newStatus
          then notify (s\<lparr>env := set_status (arrays (env s) (projects s) ! i) newStatus (env s)\<rparr>)
          else s)"

datatype error = TypeError

text \<open>
  \<^verbatim>\<open>ProjectList.dropHandler\<close> of the list of type \<open>t\<close>. The event is given by its
  \<^verbatim>\<open>dataTransfer\<close>: \<open>None\<close> when it is \<^verbatim>\<open>null\<close> (the call of \<^verbatim>\<open>getData\<close> then throws),
  else the data it holds for \<^verbatim>\<open>text/plain\<close>.
\<close>

definition dropHandler :: "list_type \<Rightarrow> js_string option \<Rightarrow> 'w app \<Rightarrow> error + 'w app" where
  "dropHandler t dataTransfer s =
     (case dataTransfer of
        None \<Rightarrow> Inl TypeError
      | Some prjId \<Rightarrow>
          Inr (moveProject prjId (if t = active then Active else Finished) s))"

section \<open>Notions used in the properties\<close>

text \<open>The store's array has been allocated.\<close>

definition allocated :: "'w app \<Rightarrow> bool" where
  "allocated s \<longleftrightarrow> projects s < next_addr (env s)"

text \<open>
  Moreover the store's array holds allocated projects, each once (every project in it
  was made by its own \<^verbatim>\<open>new Project\<close>).
\<close>

definition well_formed :: "'w app \<Rightarrow> bool" where
  "well_formed s \<longleftrightarrow>
     allocated s \<and> (\<forall>r\<in>set (arrays (env s) (projects s)). r < next_addr (env s)) \<and>
     distinct (arrays (env s) (projects s))"

text \<open>
  A listener that keeps to the array it is handed: it may change that array in any way,
  may create objects and may write to projects, but writes to no other array that exists
  when it is called.
\<close>

definition keeps_arrays :: "'w listener \<Rightarrow> bool" where
  "keeps_arrays l \<longleftrightarrow>
     (\<forall>a e. next_addr e \<le> next_addr (l a e) \<and>
            (\<forall>b. b < next_addr e \<and> b \<noteq> a \<longrightarrow> arrays (l a e) b = arrays e b))"

text \<open>A listener that writes to no field of a project that exists when it is called.\<close>

definition keeps_projects :: "'w listener \<Rightarrow> bool" where
  "keeps_projects l \<longleftrightarrow> (\<forall>a e r. r < next_addr e \<longrightarrow> objects (l a e) r = objects e r)"

definition confined :: "'w listener \<Rightarrow> bool" where
  "confined l \<longleftrightarrow> keeps_arrays l \<and> keeps_projects l"

text \<open>
  Each listener of \<open>ls\<close> in turn is called with a newly made array that holds \<open>xs\<close>:
  the environment that results, and the addresses of the arrays handed over.
\<close>

fun hand_each :: "addr list \<Rightarrow> 'w listener list \<Rightarrow> 'w env \<Rightarrow> 'w env" where
  "hand_each xs [] e = e"
| "hand_each xs (l # ls) e = hand_each xs ls (let (c, e1) = new_array xs e in l c e1)"

fun handed :: "addr list \<Rightarrow> 'w listener list \<Rightarrow> 'w env \<Rightarrow> addr list" where
  "handed xs [] e = []"
| "handed xs (l # ls) e =
     next_addr e # handed xs ls (let (c, e1) = new_array xs e in l c e1)"

text \<open>
  The states that the program reaches from its start: the user types into the form,
  submits it (\<^verbatim>\<open>Math.random()\<close> returning any number), or drops an id on one of the lists.
\<close>

inductive reachable :: "page app \<Rightarrow> bool" where
  at_start: "reachable start"
| typing: "reachable s \<Longrightarrow> reachable (enter t d p s)"
| submit: "reachable s \<Longrightarrow> reachable (submitHandler rnd s)"
| drop: "reachable s \<Longrightarrow> dropHandler lt (Some prjId) s = Inr s' \<Longrightarrow> reachable s'"

text \<open>The listener calls made on the way from state \<open>s\<close> to state \<open>s'\<close>.\<close>

definition calls_since :: "'w app \<Rightarrow> 'w app \<Rightarrow> (nat \<times> addr \<times> Project list) list" where
  "calls_since s s' = drop (length (calls s)) (calls s')"

text \<open>
  A sequence of calls of \<^verbatim>\<open>addProjects\<close>, each with its three arguments and the number
  that \<^verbatim>\<open>Math.random()\<close> returns in it.
\<close>

fun add_all :: "(js_string \<times> js_string \<times> js_number \<times> js_number) list \<Rightarrow> 'w app \<Rightarrow> 'w app" where
  "add_all [] s = s"
| "add_all ((t, d, p, rnd) # cs) s = add_all cs (addProjects t d p rnd s)"

text \<open>A number that is an integer.\<close>

fun is_integer :: "js_number \<Rightarrow> bool" where
  "is_integer (Finite q) = (of_int \<lfloor>q\<rfloor> = q)"
| "is_integer _ = False"

subsection \<open>Validation as the specification words it\<close>

text \<open>
  ``Returns true iff all present constraints pass'', where a length constraint applies
  to a string only and a numeric constraint to a number only. Each constraint is a check
  of its own; one that is absent, or does not apply to the value, passes. (\<^verbatim>\<open>required\<close>
  constrains the value when it is \<^verbatim>\<open>true\<close>.)
\<close>

definition required_passes :: "js_value \<Rightarrow> bool" where
  "required_passes v \<longleftrightarrow> trim (toString v) \<noteq> []"

fun minLength_passes :: "js_number \<Rightarrow> js_value \<Rightarrow> bool" where
  "minLength_passes b (Str s) = js_ge (js_length s) b"
| "minLength_passes b (Num n) = True"

fun maxLength_passes :: "js_number \<Rightarrow> js_value \<Rightarrow> bool" where
  "maxLength_passes b (Str s) = js_le (js_length s) b"
| "maxLength_passes b (Num n) = True"

fun min_passes :: "js_number \<Rightarrow> js_value \<Rightarrow> bool" where
  "min_passes b (Num n) = js_ge n b"
| "min_passes b (Str s) = True"

fun max_passes :: "js_number \<Rightarrow> js_value \<Rightarrow> bool" where
  "max_passes b (Num n) = js_le n b"
| "max_passes b (Str s) = True"

definition if_present :: "('a \<Rightarrow> js_value \<Rightarrow> bool) \<Rightarrow> 'a option \<Rightarrow> js_value \<Rightarrow> bool" where
  "if_present check c v = (case c of None \<Rightarrow> True | Some b \<Rightarrow> check b v)"

definition all_present_constraints_pass :: "Validatable \<Rightarrow> bool" where
  "all_present_constraints_pass i \<longleftrightarrow>
     (if required i = Some True then required_passes (value i) else True) \<and>
     if_present minLength_passes (minLength i) (value i) \<and>
     if_present maxLength_passes (maxLength i) (value i) \<and>
     if_present min_passes (min' i) (value i) \<and>
     if_present max_passes (max' i) (value i)"

section \<open>Facts about strings and numbers\<close>

lemma dropWhile_all_iff: "(\<forall>c\<in>set (dropWhile P s). P c) \<longleftrightarrow> (\<forall>c\<in>set s. P c)"
  by (induction s) auto

lemma trim_Nil_iff: "trim s = [] \<longleftrightarrow> (\<forall>c\<in>set s. is_white_space c)"
  by (simp add: trim_def dropWhile_all_iff)

lemma trim_Cons_not_blank: "\<not> is_white_space c \<Longrightarrow> trim (c # r) \<noteq> []"
  by (auto simp: trim_Nil_iff)

lemma digit_unit_not_white_space: "0 \<le> d \<Longrightarrow> d < 10 \<Longrightarrow> \<not> is_white_space (digit_unit d)"
proof -
  assume "0 \<le> d" "d < 10"
  then have "d \<in> {0, 1, 2, 3, 4, 5, 6, 7, 8, 9}" by simp arith
  then show ?thesis
    by (auto simp: digit_unit_def is_white_space_def)
qed

lemma hd_digits_of: "0 \<le> n \<Longrightarrow> \<exists>d r. 0 \<le> d \<and> d < 10 \<and> digits_of n = digit_unit d # r"
proof (induction n rule: digits_of.induct)
  case (1 n)
  show ?case
  proof (cases "n < 10")
    case True
    with 1(2) show ?thesis by (subst digits_of.simps) auto
  next
    case False
    then have "0 \<le> n div 10" by simp
    with 1(1) False obtain d r where "0 \<le> d" "d < 10" "digits_of (n div 10) = digit_unit d # r"
      by blast
    with False show ?thesis by (subst digits_of.simps) auto
  qed
qed

lemma format_digits_head:
  "\<exists>r'. format_digits (c # r) n = (if - 6 < n \<and> n \<le> 0 then 0x30 else c) # r'"
proof -
  have t: "0 < n \<Longrightarrow> take (nat n) (c # r) = c # take (nat n - 1) r"
    by (cases "nat n") auto
  show ?thesis
    by (auto simp: format_digits_def Let_def lit_def t)
qed

lemma pow10_pos: "0 < pow10 k"
  by (simp add: pow10_def)

lemma candidate_nonneg: "0 \<le> a \<Longrightarrow> candidate a n k = Some (s, n') \<Longrightarrow> 0 \<le> s"
  using pow10_pos [of "n - k"]
  by (auto simp: candidate_def Let_def split: if_splits)

lemma shortest_nonneg: "0 \<le> a \<Longrightarrow> shortest a n ks = (s, n') \<Longrightarrow> 0 \<le> s"
proof (induction ks)
  case Nil
  then show ?case using pow10_pos [of "n - 17"] by auto
next
  case (Cons k ks)
  then show ?case
    by (cases "candidate a n k") (auto dest: candidate_nonneg)
qed

lemma number_toString_head: "\<exists>c r. number_toString n = c # r \<and> \<not> is_white_space c"
proof (cases n)
  case (Finite q)
  show ?thesis
  proof (cases "q = 0")
    case True
    with Finite show ?thesis
      by (simp add: number_toString.simps lit_def is_white_space_def)
  next
    case False
    obtain s m where sm: "shortest \<bar>q\<bar> (decimal_exponent \<bar>q\<bar>)
        [1, 2, 3, 4, 5, 6, 7, 8, 9, 10, 11, 12, 13, 14, 15, 16, 17] = (s, m)"
      by (cases "shortest \<bar>q\<bar> (decimal_exponent \<bar>q\<bar>)
        [1, 2, 3, 4, 5, 6, 7, 8, 9, 10, 11, 12, 13, 14, 15, 16, 17]") auto
    have "0 \<le> s" using shortest_nonneg [OF _ sm] by simp
    then obtain d r where d: "0 \<le> d" "d < 10" "digits_of s = digit_unit d # r"
      using hd_digits_of by blast
    obtain r' where f: "format_digits (digits_of s) m =
        (if - 6 < m \<and> m \<le> 0 then 0x30 else digit_unit d) # r'"
      using format_digits_head [of "digit_unit d" r m] d(3) by auto
    have z: "\<not> is_white_space (0x30 :: code_unit)" "\<not> is_white_space (0x2D :: code_unit)"
      by (simp_all add: is_white_space_def)
    have "\<not> is_white_space (if - 6 < m \<and> m \<le> 0 then 0x30 else digit_unit d)"
      using z(1) digit_unit_not_white_space [OF d(1,2)] by simp
    with Finite False sm f z(2) show ?thesis
      by (cases "q < 0") (simp_all add: number_toString.simps lit_def)
  qed
next
  case NaN
  then show ?thesis by (simp add: number_toString.simps lit_def is_white_space_def)
next
  case PosInfinity
  then show ?thesis by (simp add: number_toString.simps lit_def is_white_space_def)
next
  case NegInfinity
  then show ?thesis by (simp add: number_toString.simps lit_def is_white_space_def)
qed

lemma number_toString_not_blank: "trim (number_toString n) \<noteq> []"
  using number_toString_head [of n] trim_Cons_not_blank by auto

lemma to_number_rounds:
  "to_number (lit ''5.0000000000000001'') = Finite 5"
  "to_number (lit ''0.99999999999999999'') = Finite 1"
  by code_simp+

lemma number_toString_shortest:
  "number_toString (to_number (lit ''0.1'')) = lit ''0.1''"
  "number_toString (Finite (1 / 2 ^ 20)) = lit ''9.5367431640625e-7''"
  by code_simp+

lemma number_toString_half: "number_toString (Finite (1 / 2)) = lit ''0.5''"
  by code_simp

lemma number_toString_quarter: "number_toString (Finite (1 / 4)) = lit ''0.25''"
  by code_simp

lemma lit_half_quarter: "lit ''0.5'' \<noteq> lit ''0.25''"
  by (simp add: lit_def)

lemma to_number_3: "to_number (lit ''3'') = Finite 3"
  by code_simp

lemma to_number_1_5: "to_number (lit ''1.5'') = Finite (3 / 2)"
  by code_simp

section \<open>Facts about notification\<close>

lemma new_array_case:
  "(case new_array xs e of (c, e1) \<Rightarrow> f c e1) = f (next_addr e) (snd (new_array xs e))"
  by (simp add: new_array_def)

lemma call_listener_fields:
  "listeners (call_listener i l s) = listeners s"
  "projects (call_listener i l s) = projects s"
  "calls (call_listener i l s) = calls s @ [(i, next_addr (env s), project_list s)]"
  "env (call_listener i l s) =
     l (next_addr (env s)) (snd (new_array (arrays (env s) (projects s)) (env s)))"
  by (simp_all add: call_listener_def slice_def new_array_def project_list_def
      array_projects_def)

lemma call_listener_arrays:
  assumes "allocated s" and "keeps_arrays l"
  shows "allocated (call_listener i l s)"
    and "arrays (env (call_listener i l s)) (projects s) = arrays (env s) (projects s)"
    and "next_addr (env s) < next_addr (env (call_listener i l s))"
proof -
  let ?e = "snd (new_array (arrays (env s) (projects s)) (env s))"
  let ?c = "next_addr (env s)"
  have e: "next_addr ?e = Suc ?c" "arrays ?e (projects s) = arrays (env s) (projects s)"
    using assms(1) by (simp_all add: new_array_def allocated_def)
  have env: "env (call_listener i l s) = l ?c ?e"
    by (simp add: call_listener_fields)
  from assms(2) have mono: "next_addr ?e \<le> next_addr (l ?c ?e)"
    and keep: "\<And>b. b < next_addr ?e \<Longrightarrow> b \<noteq> ?c \<Longrightarrow> arrays (l ?c ?e) b = arrays ?e b"
    unfolding keeps_arrays_def by blast+
  from assms(1) have lt: "projects s < ?c" by (simp add: allocated_def)
  show "allocated (call_listener i l s)"
    using mono lt e(1) by (simp add: allocated_def env call_listener_fields)
  show "arrays (env (call_listener i l s)) (projects s) = arrays (env s) (projects s)"
    using keep [of "projects s"] lt e by (simp add: env)
  show "next_addr (env s) < next_addr (env (call_listener i l s))"
    using mono e(1) by (simp add: env)
qed

lemma call_listener_objects:
  assumes "keeps_projects l" and "r < next_addr (env s)"
  shows "objects (env (call_listener i l s)) r = objects (env s) r"
proof -
  let ?e = "snd (new_array (arrays (env s) (projects s)) (env s))"
  have env: "env (call_listener i l s) = l (next_addr (env s)) ?e"
    by (simp add: call_listener_fields)
  have "r < next_addr ?e" using assms(2) by (simp add: new_array_def)
  with assms(1) have "objects (l (next_addr (env s)) ?e) r = objects ?e r"
    unfolding keeps_projects_def by blast
  then show ?thesis by (simp add: env new_array_def)
qed

lemma notify_from_fields:
  "listeners (notify_from i ls s) = listeners s"
  "projects (notify_from i ls s) = projects s"
  by (induction ls arbitrary: i s) (simp_all add: call_listener_fields)

lemma notify_from_arrays:
  assumes "allocated s" and "\<forall>l\<in>set ls. keeps_arrays l"
  shows "allocated (notify_from i ls s) \<and>
         arrays (env (notify_from i ls s)) (projects s) = arrays (env s) (projects s) \<and>
         next_addr (env s) \<le> next_addr (env (notify_from i ls s)) \<and>
         env (notify_from i ls s) = hand_each (arrays (env s) (projects s)) ls (env s)"
  using assms
proof (induction ls arbitrary: i s)
  case Nil
  then show ?case by simp
next
  case (Cons l ls)
  have l: "keeps_arrays l" and ls: "\<forall>l\<in>set ls. keeps_arrays l" using Cons.prems(2) by simp_all
  note step = call_listener_arrays [OF Cons.prems(1) l, of i]
  let ?s1 = "call_listener i l s"
  have same: "arrays (env ?s1) (projects ?s1) = arrays (env s) (projects s)"
    using step(2) by (simp add: call_listener_fields)
  note ih = Cons.IH [OF step(1) ls, of "Suc i"]
  from ih have ih1: "allocated (notify_from (Suc i) ls ?s1)"
    and ih2: "arrays (env (notify_from (Suc i) ls ?s1)) (projects ?s1) = arrays (env ?s1) (projects ?s1)"
    and ih3: "next_addr (env ?s1) \<le> next_addr (env (notify_from (Suc i) ls ?s1))"
    and ih4: "env (notify_from (Suc i) ls ?s1) =
        hand_each (arrays (env ?s1) (projects ?s1)) ls (env ?s1)"
    by blast+
  have "allocated (notify_from i (l # ls) s)" using ih1 by simp
  moreover have "arrays (env (notify_from i (l # ls) s)) (projects s) = arrays (env s) (projects s)"
    using ih2 [unfolded same] by (simp add: call_listener_fields(2))
  moreover have "next_addr (env s) \<le> next_addr (env (notify_from i (l # ls) s))"
    using ih3 step(3) by simp
  moreover have "env (notify_from i (l # ls) s) =
      hand_each (arrays (env s) (projects s)) (l # ls) (env s)"
    using ih4 [unfolded same] by (simp add: new_array_case call_listener_fields(4))
  ultimately show ?case by blast
qed

lemma handed_fresh:
  assumes "\<forall>l\<in>set ls. keeps_arrays l"
  shows "\<forall>c\<in>set (handed xs ls e). next_addr e \<le> c"
  using assms
proof (induction ls arbitrary: e)
  case Nil
  then show ?case by simp
next
  case (Cons l ls)
  let ?e1 = "l (next_addr e) (snd (new_array xs e))"
  have "keeps_arrays l" using Cons.prems by simp
  then have "next_addr (snd (new_array xs e)) \<le> next_addr ?e1"
    unfolding keeps_arrays_def by blast
  then have "next_addr e \<le> next_addr ?e1" by (simp add: new_array_def)
  moreover have "\<forall>c\<in>set (handed xs ls ?e1). next_addr ?e1 \<le> c"
    using Cons.IH [of ?e1] Cons.prems by simp
  ultimately show ?case by (auto simp: new_array_case)
qed

lemma length_handed: "length (handed xs ls e) = length ls"
  by (induction ls arbitrary: e) simp_all

lemma well_formed_allocated: "well_formed s \<Longrightarrow> allocated s"
  by (simp add: well_formed_def)

lemma call_listener_well_formed:
  assumes "well_formed s" and "keeps_arrays l"
  shows "well_formed (call_listener i l s)"
proof -
  note step = call_listener_arrays [OF well_formed_allocated [OF assms(1)] assms(2), of i]
  have "arrays (env (call_listener i l s)) (projects (call_listener i l s)) =
      arrays (env s) (projects s)"
    using step(2) by (simp add: call_listener_fields(2))
  then show ?thesis
    using assms(1) step(1,3) unfolding well_formed_def by fastforce
qed

lemma call_listener_project_list:
  assumes "well_formed s" and "confined l"
  shows "project_list (call_listener i l s) = project_list s"
proof -
  have l: "keeps_arrays l" "keeps_projects l" using assms(2) by (simp_all add: confined_def)
  note step = call_listener_arrays [OF well_formed_allocated [OF assms(1)] l(1), of i]
  have "\<forall>r\<in>set (arrays (env s) (projects s)).
      objects (env (call_listener i l s)) r = objects (env s) r"
    using assms(1) call_listener_objects [OF l(2)] unfolding well_formed_def by blast
  then show ?thesis
    using step(2) by (simp add: project_list_def array_projects_def call_listener_fields(2))
qed

lemma notify_from_well_formed:
  assumes "well_formed s" and "\<forall>l\<in>set ls. keeps_arrays l"
  shows "well_formed (notify_from i ls s)"
  using assms
proof (induction ls arbitrary: i s)
  case Nil
  then show ?case by simp
next
  case (Cons l ls)
  then show ?case by (simp add: call_listener_well_formed)
qed

lemma notify_from_project_list:
  assumes "well_formed s" and "\<forall>l\<in>set ls. confined l"
  shows "project_list (notify_from i ls s) = project_list s"
  using assms
proof (induction ls arbitrary: i s)
  case Nil
  then show ?case by simp
next
  case (Cons l ls)
  have l: "confined l" and ls: "\<forall>l\<in>set ls. confined l" using Cons.prems(2) by simp_all
  have wf: "well_formed (call_listener i l s)"
    using call_listener_well_formed [OF Cons.prems(1)] l by (simp add: confined_def)
  from Cons.IH [OF wf ls, of "Suc i"] show ?case
    by (simp add: call_listener_project_list [OF Cons.prems(1) l])
qed

lemma notify_from_calls:
  assumes "well_formed s" and "\<forall>l\<in>set ls. confined l"
  shows "\<exists>new. calls (notify_from i ls s) = calls s @ new \<and>
           map fst new = [i..<i + length ls] \<and>
           (\<forall>x\<in>set new. next_addr (env s) \<le> fst (snd x) \<and> snd (snd x) = project_list s)"
  using assms
proof (induction ls arbitrary: i s)
  case Nil
  then show ?case by simp
next
  case (Cons l ls)
  have l: "confined l" and ls: "\<forall>l\<in>set ls. confined l" using Cons.prems(2) by simp_all
  have ka: "keeps_arrays l" using l by (simp add: confined_def)
  let ?s1 = "call_listener i l s"
  have wf: "well_formed ?s1" by (rule call_listener_well_formed [OF Cons.prems(1) ka])
  note step = call_listener_arrays [OF well_formed_allocated [OF Cons.prems(1)] ka, of i]
  have pl: "project_list ?s1 = project_list s"
    by (rule call_listener_project_list [OF Cons.prems(1) l])
  from Cons.IH [OF wf ls, of "Suc i"] obtain new where
    new: "calls (notify_from (Suc i) ls ?s1) = calls ?s1 @ new"
      "map fst new = [Suc i..<Suc i + length ls]"
      "\<forall>x\<in>set new. next_addr (env ?s1) \<le> fst (snd x) \<and> snd (snd x) = project_list ?s1"
    by blast
  let ?new = "(i, next_addr (env s), project_list s) # new"
  have upt: "[i..<i + length (l # ls)] = i # [Suc i..<Suc i + length ls]"
    by (simp add: upt_rec)
  have "calls (notify_from i (l # ls) s) = calls s @ ?new"
    using new(1) by (simp add: call_listener_fields)
  moreover have "map fst ?new = [i..<i + length (l # ls)]"
    using new(2) upt by simp
  moreover have "\<forall>x\<in>set ?new. next_addr (env s) \<le> fst (snd x) \<and> snd (snd x) = project_list s"
    using new(3) pl step(3) by auto
  ultimately show ?case by blast
qed

lemma notify_calls_since:
  assumes "well_formed s" and "\<forall>l\<in>set (listeners s). confined l"
  shows "map fst (calls_since s (notify s)) = [0..<length (listeners s)]"
    and "\<forall>x\<in>set (calls_since s (notify s)).
           projects s < fst (snd x) \<and> snd (snd x) = project_list s"
proof -
  from notify_from_calls [OF assms, of 0] obtain new where
    new: "calls (notify s) = calls s @ new" "map fst new = [0..<length (listeners s)]"
      "\<forall>x\<in>set new. next_addr (env s) \<le> fst (snd x) \<and> snd (snd x) = project_list s"
    unfolding notify_def by auto
  have eq: "calls_since s (notify s) = new" by (simp add: calls_since_def new(1))
  show "map fst (calls_since s (notify s)) = [0..<length (listeners s)]"
    by (simp add: eq new(2))
  show "\<forall>x\<in>set (calls_since s (notify s)).
           projects s < fst (snd x) \<and> snd (snd x) = project_list s"
    using new(3) assms(1) unfolding eq well_formed_def allocated_def by fastforce
qed

lemma notify_fields:
  "listeners (notify s) = listeners s"
  "projects (notify s) = projects s"
  by (simp_all add: notify_def notify_from_fields)

lemma notify_arrays:
  assumes "well_formed s" and "\<forall>l\<in>set (listeners s). keeps_arrays l"
  shows "well_formed (notify s)"
    and "arrays (env (notify s)) (projects s) = arrays (env s) (projects s)"
    and "env (notify s) = hand_each (arrays (env s) (projects s)) (listeners s) (env s)"
    and "listeners (notify s) = listeners s" and "projects (notify s) = projects s"
    and "next_addr (env s) \<le> next_addr (env (notify s))"
proof -
  from notify_from_arrays [OF well_formed_allocated [OF assms(1)] assms(2), of 0]
  have a: "arrays (env (notify_from 0 (listeners s) s)) (projects s) = arrays (env s) (projects s)"
    and b: "next_addr (env s) \<le> next_addr (env (notify_from 0 (listeners s) s))"
    and c: "env (notify_from 0 (listeners s) s) =
        hand_each (arrays (env s) (projects s)) (listeners s) (env s)"
    by blast+
  show "well_formed (notify s)"
    using notify_from_well_formed [OF assms, of 0] by (simp add: notify_def)
  show "arrays (env (notify s)) (projects s) = arrays (env s) (projects s)"
    using a by (simp add: notify_def)
  show "env (notify s) = hand_each (arrays (env s) (projects s)) (listeners s) (env s)"
    using c by (simp add: notify_def)
  show "listeners (notify s) = listeners s" and "projects (notify s) = projects s"
    by (simp_all add: notify_def notify_from_fields)
  show "next_addr (env s) \<le> next_addr (env (notify s))"
    using b by (simp add: notify_def)
qed

lemma notify_project_list:
  assumes "well_formed s" and "\<forall>l\<in>set (listeners s). confined l"
  shows "project_list (notify s) = project_list s"
  using notify_from_project_list [OF assms, of 0] by (simp add: notify_def)

lemma confined_keeps_arrays: "\<forall>l\<in>set ls. confined l \<Longrightarrow> \<forall>l\<in>set ls. keeps_arrays l"
  by (simp add: confined_def)

lemma calls_since_after:
  "calls s1 = calls s \<Longrightarrow> calls_since s s' = calls_since s1 s'"
  by (simp add: calls_since_def)

lemma calls_since_self: "calls_since s s = []"
  by (simp add: calls_since_def)

lemma addProjects_notify:
  "addProjects t d p rnd s =
     notify (s\<lparr>env := push (projects s) (next_addr (env s))
       (snd (new_Project \<lparr>id' = number_toString rnd, title = t, description = d,
                          people = p, status = Active\<rparr> (env s)))\<rparr>)"
  by (simp add: addProjects_def new_Project_def)

lemma pushed_fields:
  fixes s :: "'w app" and new :: Project
  defines "e0 \<equiv> push (projects s) (next_addr (env s)) (snd (new_Project new (env s)))"
  shows "listeners (s\<lparr>env := e0\<rparr>) = listeners s"
    and "projects (s\<lparr>env := e0\<rparr>) = projects s"
    and "calls (s\<lparr>env := e0\<rparr>) = calls s"
    and "arrays e0 (projects s) = arrays (env s) (projects s) @ [next_addr (env s)]"
    and "objects e0 = (objects (env s))(next_addr (env s) := new)"
    and "next_addr e0 = Suc (next_addr (env s))"
    and "world e0 = world (env s)"
  by (simp_all add: e0_def push_def new_Project_def)

lemma pushed_well_formed:
  fixes s :: "'w app" and new :: Project
  assumes "well_formed s"
  defines "e0 \<equiv> push (projects s) (next_addr (env s)) (snd (new_Project new (env s)))"
  shows "well_formed (s\<lparr>env := e0\<rparr>)"
    and "project_list (s\<lparr>env := e0\<rparr>) = project_list s @ [new]"
    and "next_addr (env s) \<notin> set (arrays (env s) (projects s))"
proof -
  have fresh: "\<forall>r\<in>set (arrays (env s) (projects s)). r < next_addr (env s)"
    using assms(1) by (simp add: well_formed_def)
  then show 3: "next_addr (env s) \<notin> set (arrays (env s) (projects s))" by auto
  show "well_formed (s\<lparr>env := e0\<rparr>)"
    using assms(1) 3 unfolding well_formed_def allocated_def e0_def
    by (auto simp: push_def new_Project_def less_Suc_eq)
  have "map ((objects (env s))(next_addr (env s) := new)) (arrays (env s) (projects s)) =
      map (objects (env s)) (arrays (env s) (projects s))"
    using 3 by (intro map_cong) auto
  then show "project_list (s\<lparr>env := e0\<rparr>) = project_list s @ [new]"
    by (simp add: project_list_def array_projects_def e0_def push_def new_Project_def)
qed

lemma addProjects_frame:
  fixes t d :: js_string and p rnd :: js_number and s :: "'w app"
  assumes "well_formed s" and "\<forall>l\<in>set (listeners s). confined l"
  defines "new \<equiv> \<lparr>id' = number_toString rnd, title = t, description = d, people = p,
                    status = Active\<rparr>"
  shows "well_formed (addProjects t d p rnd s)"
    and "project_list (addProjects t d p rnd s) = project_list s @ [new]"
    and "listeners (addProjects t d p rnd s) = listeners s"
    and "projects (addProjects t d p rnd s) = projects s"
    and "map fst (calls_since s (addProjects t d p rnd s)) = [0..<length (listeners s)]"
    and "\<forall>x\<in>set (calls_since s (addProjects t d p rnd s)).
           projects s < fst (snd x) \<and> snd (snd x) = project_list s @ [new]"
proof -
  let ?s1 = "s\<lparr>env := push (projects s) (next_addr (env s)) (snd (new_Project new (env s)))\<rparr>"
  have wf: "well_formed ?s1" by (rule pushed_well_formed(1) [OF assms(1)])
  have c: "\<forall>l\<in>set (listeners ?s1). confined l" using assms(2) by simp
  note ka = confined_keeps_arrays [OF c]
  have eq: "addProjects t d p rnd s = notify ?s1"
    by (simp add: addProjects_notify new_def)
  have cs: "calls_since s (notify ?s1) = calls_since ?s1 (notify ?s1)"
    by (rule calls_since_after) simp
  have pl: "project_list ?s1 = project_list s @ [new]"
    by (rule pushed_well_formed(2) [OF assms(1)])
  show "well_formed (addProjects t d p rnd s)"
    unfolding eq by (rule notify_arrays(1) [OF wf ka])
  show "project_list (addProjects t d p rnd s) = project_list s @ [new]"
    unfolding eq by (simp only: notify_project_list [OF wf c] pl)
  show "listeners (addProjects t d p rnd s) = listeners s"
    unfolding eq by (simp add: notify_arrays(4) [OF wf ka])
  show "projects (addProjects t d p rnd s) = projects s"
    unfolding eq by (simp add: notify_arrays(5) [OF wf ka])
  show "map fst (calls_since s (addProjects t d p rnd s)) = [0..<length (listeners s)]"
    unfolding eq cs using notify_calls_since(1) [OF wf c] by simp
  show "\<forall>x\<in>set (calls_since s (addProjects t d p rnd s)).
           projects s < fst (snd x) \<and> snd (snd x) = project_list s @ [new]"
    unfolding eq cs using notify_calls_since(2) [OF wf c] by (simp only: pl) simp
qed

lemma addProjects_arrays:
  fixes t d :: js_string and p rnd :: js_number and s :: "'w app"
  assumes "well_formed s" and "\<forall>l\<in>set (listeners s). keeps_arrays l"
  defines "new \<equiv> \<lparr>id' = number_toString rnd, title = t, description = d, people = p,
                    status = Active\<rparr>"
  defines "e0 \<equiv> push (projects s) (next_addr (env s)) (snd (new_Project new (env s)))"
  shows "env (addProjects t d p rnd s) =
           hand_each (arrays (env s) (projects s) @ [next_addr (env s)]) (listeners s) e0"
    and "arrays (env (addProjects t d p rnd s)) (projects s) =
           arrays (env s) (projects s) @ [next_addr (env s)]"
    and "projects (addProjects t d p rnd s) = projects s"
    and "projects s \<notin> set (handed (arrays (env s) (projects s) @ [next_addr (env s)])
           (listeners s) e0)"
proof -
  let ?s1 = "s\<lparr>env := e0\<rparr>"
  have wf: "well_formed ?s1" unfolding e0_def by (rule pushed_well_formed(1) [OF assms(1)])
  have ka: "\<forall>l\<in>set (listeners ?s1). keeps_arrays l" using assms(2) by simp
  have eq: "addProjects t d p rnd s = notify ?s1"
    by (simp add: addProjects_notify new_def e0_def)
  have ar: "arrays (env ?s1) (projects ?s1) = arrays (env s) (projects s) @ [next_addr (env s)]"
    by (simp add: e0_def push_def new_Project_def)
  show "env (addProjects t d p rnd s) =
      hand_each (arrays (env s) (projects s) @ [next_addr (env s)]) (listeners s) e0"
    unfolding eq using notify_arrays(3) [OF wf ka] unfolding ar by simp
  show "arrays (env (addProjects t d p rnd s)) (projects s) =
      arrays (env s) (projects s) @ [next_addr (env s)]"
    unfolding eq using notify_arrays(2) [OF wf ka] unfolding ar by simp
  show "projects (addProjects t d p rnd s) = projects s"
    unfolding eq using notify_arrays(5) [OF wf ka] by simp
  have "projects s < next_addr e0"
    using assms(1) by (simp add: well_formed_def allocated_def e0_def push_def new_Project_def)
  then show "projects s \<notin> set (handed (arrays (env s) (projects s) @ [next_addr (env s)])
      (listeners s) e0)"
    using handed_fresh [OF assms(2), of "arrays (env s) (projects s) @ [next_addr (env s)]" e0]
    by auto
qed

lemma add_all_ids:
  assumes "well_formed s" and "\<forall>l\<in>set (listeners s). confined l"
  shows "map id' (project_list (add_all cs s)) =
           map id' (project_list s) @ map (\<lambda>(t, d, p, rnd). number_toString rnd) cs"
  using assms
proof (induction cs arbitrary: s)
  case Nil
  then show ?case by simp
next
  case (Cons c cs)
  obtain t d p rnd where c: "c = (t, d, p, rnd)" by (cases c) auto
  note f = addProjects_frame [OF Cons.prems, where t = t and d = d and p = p and rnd = rnd]
  have "\<forall>l\<in>set (listeners (addProjects t d p rnd s)). confined l"
    using Cons.prems(2) by (simp add: f(3))
  from Cons.IH [OF f(1) this] show ?case
    by (simp add: c f(2))
qed

lemma slice_shares_projects:
  "map title (project_list (addProjects (lit ''a'') (lit ''b'') (Finite 2) (Finite (1 / 2))
        \<lparr>listeners = [\<lambda>a e. e\<lparr>objects := (objects e)
                         (hd (arrays e a) := (objects e (hd (arrays e a)))\<lparr>title := lit ''x''\<rparr>)\<rparr>],
         projects = 0,
         env = \<lparr>objects = (\<lambda>_. \<lparr>id' = [], title = [], description = [], people = NaN,
                                    status = Active\<rparr>),
                arrays = (\<lambda>_. []), next_addr = 1, world = ()\<rparr>,
         calls = []\<rparr>)) = [lit ''x'']"
  by (simp add: addProjects_def notify_def call_listener_def slice_def new_array_def
      new_Project_def push_def project_list_def array_projects_def)

section \<open>Facts about the two lists\<close>

lemma confined_list_listener: "confined (list_listener t)"
  by (simp add: confined_def keeps_arrays_def keeps_projects_def list_listener_def
      renderProjects_def new_array_def Let_def)

lemma allocated_start: "allocated start"
  by (simp add: allocated_def start_def addListener_def)

lemma well_formed_start: "well_formed start"
  by (simp add: well_formed_def allocated_def start_def addListener_def)

lemma listeners_start: "listeners start = [list_listener active, list_listener finished]"
  by (simp add: start_def addListener_def)

lemma project_list_start: "project_list start = []"
  by (simp add: project_list_def array_projects_def start_def addListener_def)

lemma confined_start: "\<forall>l\<in>set (listeners start). confined l"
  by (simp add: listeners_start confined_list_listener)

lemma notify_two_lists:
  assumes "listeners s = [list_listener active, list_listener finished]"
    and "allocated s"
  shows "arrays (env (notify s)) (assignedProjects (projectLists (world (env (notify s))) active))
           = filter (\<lambda>r. status (objects (env s) r) = Active) (arrays (env s) (projects s))"
    and "arrays (env (notify s)) (assignedProjects (projectLists (world (env (notify s))) finished))
           = filter (\<lambda>r. status (objects (env s) r) = Finished) (arrays (env s) (projects s))"
    and "listEle (projectLists (world (env (notify s))) active)
           = map title (filter (\<lambda>p. status p = Active) (project_list s))"
    and "listEle (projectLists (world (env (notify s))) finished)
           = map title (filter (\<lambda>p. status p = Finished) (project_list s))"
    and "objects (env (notify s)) = objects (env s)"
    and "arrays (env (notify s)) (projects s) = arrays (env s) (projects s)"
    and "projects (notify s) = projects s"
    and "calls_since s (notify s) =
           [(0, next_addr (env s), project_list s), (1, next_addr (env s) + 2, project_list s)]"
  using assms
  by (simp_all add: notify_def call_listener_def slice_def new_array_def list_listener_def
      renderProjects_def project_list_def array_projects_def allocated_def Let_def
      calls_since_def filter_map comp_def)

lemma one_project:
  "project_list (addProjects (lit ''Build site'') (lit ''Company site'') (Finite 3)
       (Finite (1 / 2)) start) =
     [\<lparr>id' = lit ''0.5'', title = lit ''Build site'', description = lit ''Company site'',
       people = Finite 3, status = Active\<rparr>]"
  "well_formed (addProjects (lit ''Build site'') (lit ''Company site'') (Finite 3)
       (Finite (1 / 2)) start)"
  "\<forall>l\<in>set (listeners (addProjects (lit ''Build site'') (lit ''Company site'') (Finite 3)
       (Finite (1 / 2)) start)). confined l"
  using addProjects_frame(1,2,3) [OF well_formed_start confined_start]
  by (simp_all add: project_list_start number_toString_half confined_start)

section \<open>Facts about the form\<close>

lemma on_world_fields:
  "listeners (on_world f s) = listeners s"
  "projects (on_world f s) = projects s"
  "calls (on_world f s) = calls s"
  "project_list (on_world f s) = project_list s"
  "allocated (on_world f s) = allocated s"
  "arrays (env (on_world f s)) = arrays (env s)"
  "next_addr (env (on_world f s)) = next_addr (env s)"
  "objects (env (on_world f s)) = objects (env s)"
  "well_formed (on_world f s) = well_formed s"
  "world (env (on_world f s)) = f (world (env s))"
  by (simp_all add: on_world_def project_list_def array_projects_def allocated_def
      well_formed_def)

lemma enter_fields:
  "projectInput (world (env (enter t d p s))) =
     \<lparr>titleInputElement = t, descriptionInputElement = d, peopleInputElement = p\<rparr>"
  "alerts (world (env (enter t d p s))) = alerts (world (env s))"
  "project_list (enter t d p s) = project_list s"
  "listeners (enter t d p s) = listeners s"
  "allocated (enter t d p s) = allocated s"
  "well_formed (enter t d p s) = well_formed s"
  by (simp_all add: enter_def on_world_fields)

lemma gatherUserInput_Some:
  assumes "gatherUserInput w = (Some (t, d, p), w')"
  shows "w' = w" and "t = titleInputElement (projectInput w)"
    and "d = descriptionInputElement (projectInput w)"
    and "p = to_number (peopleInputElement (projectInput w))"
    and "validate \<lparr>value = Str t, required = Some True, minLength = None,
               maxLength = None, min' = None, max' = None\<rparr>"
    and "validate \<lparr>value = Str d, required = Some True,
               minLength = Some (Finite 5), maxLength = None, min' = None, max' = None\<rparr>"
    and "validate \<lparr>value = Num p, required = Some True, minLength = None,
               maxLength = None, min' = Some (Finite 1), max' = Some (Finite 5)\<rparr>"
  using assms unfolding gatherUserInput_def Let_def
  by (auto split: if_splits)

lemma validate_people_range:
  assumes "validate \<lparr>value = Num p, required = Some True, minLength = None,
               maxLength = None, min' = Some (Finite 1), max' = Some (Finite 5)\<rparr>"
  shows "\<exists>q. p = Finite q \<and> 1 \<le> q \<and> q \<le> 5"
  using assms by (cases p) (simp_all add: validate_def js_ge_def)

lemma submitHandler_Some:
  assumes "gatherUserInput (world (env s)) = (Some (t, d, p), w)"
  shows "submitHandler rnd s =
    on_world clearInputs
      (on_world (\<lambda>w. w\<lparr>console := console w @ [(t, d, p)]\<rparr>) (addProjects t d p rnd s))"
proof -
  have "w = world (env s)" using gatherUserInput_Some(1) [OF assms] .
  then have "on_world (\<lambda>_. w) s = s" by (simp add: on_world_def)
  then show ?thesis by (simp add: submitHandler_def assms)
qed

lemma validate_Title:
  "validate \<lparr>value = Str (lit ''Title''), required = Some True, minLength = None,
             maxLength = None, min' = None, max' = None\<rparr>"
  by code_simp

lemma validate_valid_desc:
  "validate \<lparr>value = Str (lit ''valid desc''), required = Some True,
             minLength = Some (Finite 5), maxLength = None, min' = None, max' = None\<rparr>"
  by code_simp

lemma validate_3:
  "validate \<lparr>value = Num (Finite 3), required = Some True, minLength = None,
             maxLength = None, min' = Some (Finite 1), max' = Some (Finite 5)\<rparr>"
  by (simp add: validate_def number_toString_not_blank js_ge_def)

lemma validate_1_5:
  "validate \<lparr>value = Num (Finite (3 / 2)), required = Some True, minLength = None,
             maxLength = None, min' = Some (Finite 1), max' = Some (Finite 5)\<rparr>"
  by (simp add: validate_def number_toString_not_blank js_ge_def)

lemma gather_example:
  "gatherUserInput (world (env (enter (lit ''Title'') (lit ''valid desc'') (lit ''3'') start))) =
     (Some (lit ''Title'', lit ''valid desc'', Finite 3),
      world (env (enter (lit ''Title'') (lit ''valid desc'') (lit ''3'') start)))"
  by (simp add: gatherUserInput_def Let_def enter_fields to_number_3 validate_Title
      validate_valid_desc validate_3)

lemma gather_fraction:
  "gatherUserInput (world (env (enter (lit ''Title'') (lit ''valid desc'') (lit ''1.5'') start))) =
     (Some (lit ''Title'', lit ''valid desc'', Finite (3 / 2)),
      world (env (enter (lit ''Title'') (lit ''valid desc'') (lit ''1.5'') start)))"
  by (simp add: gatherUserInput_def Let_def enter_fields to_number_1_5 validate_Title
      validate_valid_desc validate_1_5)

section \<open>Facts about moving a project\<close>

lemma find_index_None: "find_index P xs = None \<longleftrightarrow> (\<forall>x\<in>set xs. \<not> P x)"
  by (induction xs) auto

lemma find_index_first:
  assumes "i < length xs" and "P (xs ! i)" and "\<forall>j<i. \<not> P (xs ! j)"
  shows "find_index P xs = Some i"
  using assms
proof (induction xs arbitrary: i)
  case Nil
  then show ?case by simp
next
  case (Cons x xs)
  show ?case
  proof (cases i)
    case 0
    with Cons.prems show ?thesis by simp
  next
    case (Suc k)
    with Cons.prems have "\<not> P x" by auto
    moreover have "find_index P xs = Some k"
      using Cons.prems Suc by (intro Cons.IH) auto
    ultimately show ?thesis using Suc by simp
  qed
qed

lemma set_status_fields:
  "listeners (s\<lparr>env := set_status r S (env s)\<rparr>) = listeners s"
  "projects (s\<lparr>env := set_status r S (env s)\<rparr>) = projects s"
  "calls (s\<lparr>env := set_status r S (env s)\<rparr>) = calls s"
  "arrays (set_status r S e) = arrays e"
  "next_addr (set_status r S e) = next_addr e"
  "well_formed (s\<lparr>env := set_status r S (env s)\<rparr>) = well_formed s"
  by (simp_all add: set_status_def well_formed_def allocated_def)

lemma set_status_projects:
  assumes "distinct (arrays e a)" and "i < length (arrays e a)"
  shows "array_projects (set_status (arrays e a ! i) S e) a =
           (array_projects e a)[i := (array_projects e a ! i)\<lparr>status := S\<rparr>]"
proof (rule nth_equalityI)
  show "length (array_projects (set_status (arrays e a ! i) S e) a) =
      length ((array_projects e a)[i := (array_projects e a ! i)\<lparr>status := S\<rparr>])"
    by (simp add: array_projects_def set_status_def)
next
  fix j
  assume "j < length (array_projects (set_status (arrays e a ! i) S e) a)"
  then have j: "j < length (arrays e a)" by (simp add: array_projects_def set_status_def)
  have "arrays e a ! j = arrays e a ! i \<longleftrightarrow> j = i"
    using assms j by (simp add: nth_eq_iff_index_eq)
  then show "array_projects (set_status (arrays e a ! i) S e) a ! j =
      (array_projects e a)[i := (array_projects e a ! i)\<lparr>status := S\<rparr>] ! j"
    using j assms(2) by (auto simp: array_projects_def set_status_def nth_list_update)
qed

section \<open>Facts about the states reached\<close>

lemma submitHandler_None:
  assumes "gatherUserInput (world (env s)) = (None, w)"
  shows "submitHandler rnd s = on_world (\<lambda>_. w) s"
  by (simp add: submitHandler_def assms)

lemma moveProject_well_formed:
  assumes "well_formed s" and "\<forall>l\<in>set (listeners s). keeps_arrays l"
  shows "well_formed (moveProject projectId newStatus s)"
    and "listeners (moveProject projectId newStatus s) = listeners s"
proof -
  have "\<And>r. well_formed (notify (s\<lparr>env := set_status r newStatus (env s)\<rparr>))"
    using assms by (intro notify_arrays(1)) (simp_all add: set_status_fields)
  then show "well_formed (moveProject projectId newStatus s)"
    using assms(1) by (simp add: moveProject_def split: option.splits)
  show "listeners (moveProject projectId newStatus s) = listeners s"
    by (simp add: moveProject_def notify_fields split: option.splits)
qed

lemma reachable_well_formed:
  assumes "reachable s"
  shows "well_formed s \<and> listeners s = [list_listener active, list_listener finished]"
  using assms
proof (induction rule: reachable.induct)
  case at_start
  show ?case by (simp add: well_formed_start listeners_start)
next
  case (typing s t d p)
  then show ?case by (simp add: enter_fields)
next
  case (submit s rnd)
  then have wf: "well_formed s"
    and ls: "listeners s = [list_listener active, list_listener finished]" by simp_all
  have c: "\<forall>l\<in>set (listeners s). confined l" by (simp add: ls confined_list_listener)
  obtain u w where g: "gatherUserInput (world (env s)) = (u, w)"
    by (cases "gatherUserInput (world (env s))") auto
  show ?case
  proof (cases u)
    case None
    with g wf ls show ?thesis
      by (simp add: submitHandler_None on_world_fields)
  next
    case (Some x)
    obtain t d p where x: "x = (t, d, p)" by (cases x) auto
    have "gatherUserInput (world (env s)) = (Some (t, d, p), w)" using g Some x by simp
    from submitHandler_Some [OF this, of rnd]
      addProjects_frame(1,3) [OF wf c, where rnd = rnd and t = t and d = d and p = p] ls
    show ?thesis by (simp add: on_world_fields)
  qed
next
  case (drop s lt prjId s')
  then have wf: "well_formed s"
    and ls: "listeners s = [list_listener active, list_listener finished]" by simp_all
  have ka: "\<forall>l\<in>set (listeners s). keeps_arrays l"
    using confined_list_listener by (simp add: ls confined_def)
  from drop.hyps(2) have "s' = moveProject prjId (if lt = active then Active else Finished) s"
    by (simp add: dropHandler_def)
  with moveProject_well_formed [OF wf ka] ls show ?case by simp
qed

section \<open>The claims\<close>

subsection \<open>The store\<close>



text \<open>
  C2. \<^verbatim>\<open>moveProject(id, S)\<close> when a project with the id exists (\<open>i\<close> is the index of the
  first such project, the one located) and \<open>S\<close> differs from its status: the project at
  \<open>i\<close> gets status \<open>S\<close> and keeps its other fields, every other project is unchanged in
  every field, the store's array holds the same objects, and the listeners are notified:
  the environment after \<^verbatim>\<open>moveProject\<close> is the one that calling every listener in turn
  with a newly made array of the store's projects produces, from the environment \<open>e0\<close> in
  which the status has been written.
\<close>

theorem moveProject_changes_one_status:
  fixes s :: "'w app"
  assumes "well_formed s" and "\<forall>l\<in>set (listeners s). confined l"
    and "i < length (project_list s)" and "id' (project_list s ! i) = projectId"
    and "\<forall>j<i. id' (project_list s ! j) \<noteq> projectId"
    and "status (project_list s ! i) \<noteq> newStatus"
  defines "e0 \<equiv> set_status (arrays (env s) (projects s) ! i) newStatus (env s)"
  shows "project_list (moveProject projectId newStatus s) =
           (project_list s)[i := (project_list s ! i)\<lparr>status := newStatus\<rparr>] \<and>
         length (project_list (moveProject projectId newStatus s)) = length (project_list s) \<and>
         status (project_list (moveProject projectId newStatus s) ! i) = newStatus \<and>
         (\<forall>j<length (project_list s). j \<noteq> i \<longrightarrow>
            project_list (moveProject projectId newStatus s) ! j = project_list s ! j) \<and>
         arrays (env (moveProject projectId newStatus s))
             (projects (moveProject projectId newStatus s)) = arrays (env s) (projects s) \<and>
         array_projects e0 (projects s) =
           (project_list s)[i := (project_list s ! i)\<lparr>status := newStatus\<rparr>] \<and>
         env (moveProject projectId newStatus s) =
           hand_each (arrays (env s) (projects s)) (listeners s) e0 \<and>
         map fst (calls_since s (moveProject projectId newStatus s)) = [0..<length (listeners s)] \<and>
         (\<forall>x\<in>set (calls_since s (moveProject projectId newStatus s)).
            snd (snd x) = project_list (moveProject projectId newStatus s))"
proof -
  let ?s1 = "s\<lparr>env := e0\<rparr>"
  have fi: "find_index (\<lambda>prj. id' prj = projectId) (project_list s) = Some i"
    using assms(3,4,5) by (intro find_index_first) auto
  have eq: "moveProject projectId newStatus s = notify ?s1"
    using assms(6) by (simp add: moveProject_def fi e0_def)
  have s1: "well_formed ?s1" "\<forall>l\<in>set (listeners ?s1). confined l"
    using assms(1,2) by (simp_all add: e0_def set_status_fields)
  note ka = confined_keeps_arrays [OF s1(2)]
  have cs: "calls_since s (notify ?s1) = calls_since ?s1 (notify ?s1)"
    by (rule calls_since_after) simp
  have i: "i < length (arrays (env s) (projects s))"
    using assms(3) by (simp add: project_list_def array_projects_def)
  have d: "distinct (arrays (env s) (projects s))"
    using assms(1) by (simp add: well_formed_def)
  have p0: "array_projects e0 (projects s) =
      (project_list s)[i := (project_list s ! i)\<lparr>status := newStatus\<rparr>]"
    unfolding e0_def project_list_def by (rule set_status_projects [OF d i])
  have p1: "project_list ?s1 = (project_list s)[i := (project_list s ! i)\<lparr>status := newStatus\<rparr>]"
    using p0 by (simp add: project_list_def)
  have pl: "project_list (notify ?s1) =
      (project_list s)[i := (project_list s ! i)\<lparr>status := newStatus\<rparr>]"
    by (simp only: notify_project_list [OF s1] p1)
  have ar: "arrays (env ?s1) (projects ?s1) = arrays (env s) (projects s)"
    by (simp add: e0_def set_status_fields)
  note n = notify_arrays [OF s1(1) ka]
  have a1: "arrays (env (notify ?s1)) (projects (notify ?s1)) = arrays (env s) (projects s)"
    using n(2) by (simp add: notify_fields e0_def set_status_fields)
  have a2: "env (notify ?s1) = hand_each (arrays (env s) (projects s)) (listeners s) e0"
    using n(3) by (simp add: e0_def set_status_fields)
  have c1: "map fst (calls_since ?s1 (notify ?s1)) = [0..<length (listeners s)]"
    using notify_calls_since(1) [OF s1] by simp
  have c2: "\<forall>x\<in>set (calls_since ?s1 (notify ?s1)). snd (snd x) = project_list (notify ?s1)"
    using notify_calls_since(2) [OF s1] by (simp add: notify_project_list [OF s1])
  show ?thesis
    unfolding eq cs
    using pl p0 a1 a2 c1 c2 assms(3) by simp
qed

text \<open>
  The second step of the first scenario: the project added is moved to \<open>Finished\<close>.
\<close>

theorem moveProject_changes_one_status_witness:
  "project_list (moveProject (lit ''0.5'') Finished
       (addProjects (lit ''Build site'') (lit ''Company site'') (Finite 3)
          (Finite (1 / 2)) start)) =
     [\<lparr>id' = lit ''0.5'', title = lit ''Build site'', description = lit ''Company site'',
       people = Finite 3, status = Finished\<rparr>]"
  using moveProject_changes_one_status [OF one_project(2,3), of 0 "lit ''0.5''" Finished]
  by (simp add: one_project(1))

text \<open>
  C3. \<^verbatim>\<open>moveProject(id, S)\<close> with an id that no project of the store has, or with the
  status \<open>S\<close> that the located project (the first with the id, at index \<open>i\<close>) already has:
  the whole state is returned as it was, so the list is unchanged and no listener is
  called; the call returns normally, and so does a drop that carries such an id onto the
  list of the status \<open>S\<close>.
\<close>

theorem moveProject_no_op:
  fixes s :: "'w app"
  assumes "(\<forall>p\<in>set (project_list s). id' p \<noteq> projectId) \<or>
           (i < length (project_list s) \<and> id' (project_list s ! i) = projectId \<and>
            (\<forall>j<i. id' (project_list s ! j) \<noteq> projectId) \<and>
            status (project_list s ! i) = newStatus)"
  shows "moveProject projectId newStatus s = s \<and>
         project_list (moveProject projectId newStatus s) = project_list s \<and>
         calls_since s (moveProject projectId newStatus s) = [] \<and>
         (newStatus = (if t = active then Active else Finished) \<longrightarrow>
            dropHandler t (Some projectId) s = Inr s)"
proof -
  have eq: "moveProject projectId newStatus s = s"
    using assms
  proof
    assume "\<forall>p\<in>set (project_list s). id' p \<noteq> projectId"
    then have "find_index (\<lambda>prj. id' prj = projectId) (project_list s) = None"
      by (simp add: find_index_None)
    then show ?thesis by (simp add: moveProject_def)
  next
    assume a: "i < length (project_list s) \<and> id' (project_list s ! i) = projectId \<and>
            (\<forall>j<i. id' (project_list s ! j) \<noteq> projectId) \<and>
            status (project_list s ! i) = newStatus"
    then have "find_index (\<lambda>prj. id' prj = projectId) (project_list s) = Some i"
      by (intro find_index_first) auto
    with a show ?thesis by (simp add: moveProject_def)
  qed
  then show ?thesis
    by (auto simp: calls_since_self dropHandler_def)
qed

text \<open>The project added in the first scenario is dropped on the list of active projects.\<close>

theorem moveProject_no_op_witness:
  "project_list (moveProject (lit ''0.5'') Active
       (addProjects (lit ''Build site'') (lit ''Company site'') (Finite 3)
          (Finite (1 / 2)) start)) =
     [\<lparr>id' = lit ''0.5'', title = lit ''Build site'', description = lit ''Company site'',
       people = Finite 3, status = Active\<rparr>] \<and>
   calls_since
     (addProjects (lit ''Build site'') (lit ''Company site'') (Finite 3) (Finite (1 / 2)) start)
     (moveProject (lit ''0.5'') Active
       (addProjects (lit ''Build site'') (lit ''Company site'') (Finite 3)
          (Finite (1 / 2)) start)) = []"
  using moveProject_no_op [of "addProjects (lit ''Build site'') (lit ''Company site'') (Finite 3)
          (Finite (1 / 2)) start" "lit ''0.5''" 0 Active active]
  by (simp add: one_project(1) calls_since_self)

text \<open>
  C6 as amended. The ids of the projects in the store after a sequence of calls of
  \<^verbatim>\<open>addProjects\<close> are the ids held before, followed by the texts of the numbers that
  \<^verbatim>\<open>Math.random()\<close> returned, in the order of the calls. They are pairwise distinct if
  and only if these texts are: the store compares no new id with the ids it holds.
\<close>

theorem ids_are_strings_of_random_numbers:
  fixes s :: "'w app"
  assumes "well_formed s" and "\<forall>l\<in>set (listeners s). confined l"
  shows "map id' (project_list (add_all cs s)) =
           map id' (project_list s) @ map (\<lambda>(t, d, p, rnd). number_toString rnd) cs \<and>
         (distinct (map id' (project_list (add_all cs s))) \<longleftrightarrow>
            distinct (map id' (project_list s) @ map (\<lambda>(t, d, p, rnd). number_toString rnd) cs))"
  using add_all_ids [OF assms] by simp

text \<open>Two calls in which \<^verbatim>\<open>Math.random()\<close> returns 0.5, then 0.25.\<close>

theorem ids_are_strings_of_random_numbers_witness:
  "map id' (project_list (add_all
       [(lit ''a'', lit ''first'', Finite 1, Finite (1 / 2)),
        (lit ''b'', lit ''second'', Finite 2, Finite (1 / 4))] start)) =
     [lit ''0.5'', lit ''0.25''] \<and>
   distinct (map id' (project_list (add_all
       [(lit ''a'', lit ''first'', Finite 1, Finite (1 / 2)),
        (lit ''b'', lit ''second'', Finite 2, Finite (1 / 4))] start)))"
  using ids_are_strings_of_random_numbers [OF well_formed_start confined_start,
      of "[(lit ''a'', lit ''first'', Finite 1, Finite (1 / 2)),
           (lit ''b'', lit ''second'', Finite 2, Finite (1 / 4))]"]
  by (simp add: project_list_start number_toString_half number_toString_quarter
      lit_half_quarter)

text \<open>
  C6 as stated fails: two calls in which \<^verbatim>\<open>Math.random()\<close> returns the same number, 0.5,
  leave two projects with the id ``0.5'' in the store.
\<close>

theorem ids_not_distinct_counterexample:
  "\<not> distinct (map id' (project_list (add_all
       [(lit ''a'', lit ''first'', Finite 1, Finite (1 / 2)),
        (lit ''b'', lit ''second'', Finite 2, Finite (1 / 2))] start)))"
proof -
  have "map id' (project_list (add_all
       [(lit ''a'', lit ''first'', Finite 1, Finite (1 / 2)),
        (lit ''b'', lit ''second'', Finite 2, Finite (1 / 2))] start)) =
     [number_toString (Finite (1 / 2)), number_toString (Finite (1 / 2))]"
    by (simp only: add_all_ids [OF well_formed_start confined_start] project_list_start)
      simp
  then show ?thesis by (simp only: distinct.simps) simp
qed

text \<open>
  C7. In \<^verbatim>\<open>addProjects\<close>, every listener is called with a newly made array that holds
  the elements of the store's array (\<open>full\<close>, the new project included); none of the
  arrays handed over is the store's own array, and there is one for each listener.
  Whatever the listeners do to the arrays they are handed (adding, removing, reordering
  elements), the store's array after all of them have run holds the elements it held
  when they were called. The listeners here may also write to projects: the copy shares
  its elements with the store's array, so such a write reaches the store's project, but
  not the array.
\<close>

theorem listeners_receive_copies:
  fixes t d :: js_string and p rnd :: js_number and s :: "'w app"
  assumes "well_formed s" and "\<forall>l\<in>set (listeners s). keeps_arrays l"
  defines "new \<equiv> \<lparr>id' = number_toString rnd, title = t, description = d, people = p,
                    status = Active\<rparr>"
  defines "e0 \<equiv> push (projects s) (next_addr (env s)) (snd (new_Project new (env s)))"
  defines "full \<equiv> arrays (env s) (projects s) @ [next_addr (env s)]"
  shows "env (addProjects t d p rnd s) = hand_each full (listeners s) e0 \<and>
         arrays e0 (projects s) = full \<and>
         length (handed full (listeners s) e0) = length (listeners s) \<and>
         projects (addProjects t d p rnd s) \<notin> set (handed full (listeners s) e0) \<and>
         arrays (env (addProjects t d p rnd s)) (projects (addProjects t d p rnd s)) = full"
proof -
  note a = addProjects_arrays [OF assms(1,2), where t = t and d = d and p = p and rnd = rnd,
      folded new_def, folded e0_def, folded full_def]
  have "arrays e0 (projects s) = full"
    by (simp add: e0_def full_def push_def new_Project_def)
  then show ?thesis
    using a by (simp add: length_handed)
qed

text \<open>
  A store with one listener, which notes the elements it receives and then empties the
  array it was handed.
\<close>

theorem listeners_receive_copies_witness:
  "arrays (env (addProjects (lit ''a'') (lit ''b'') (Finite 2) (Finite (1 / 2))
        \<lparr>listeners = [\<lambda>a e. e\<lparr>arrays := (arrays e)(a := []), world := world e @ [arrays e a]\<rparr>],
         projects = 0,
         env = \<lparr>objects = (\<lambda>_. \<lparr>id' = [], title = [], description = [], people = NaN,
                                    status = Active\<rparr>),
                arrays = (\<lambda>_. []), next_addr = 1, world = []\<rparr>,
         calls = []\<rparr>)) 0 = [1] \<and>
   world (env (addProjects (lit ''a'') (lit ''b'') (Finite 2) (Finite (1 / 2))
        \<lparr>listeners = [\<lambda>a e. e\<lparr>arrays := (arrays e)(a := []), world := world e @ [arrays e a]\<rparr>],
         projects = 0,
         env = \<lparr>objects = (\<lambda>_. \<lparr>id' = [], title = [], description = [], people = NaN,
                                    status = Active\<rparr>),
                arrays = (\<lambda>_. []), next_addr = 1, world = []\<rparr>,
         calls = []\<rparr>)) = [[1]]"
proof -
  let ?l = "\<lambda>a (e :: addr list list env). e\<lparr>arrays := (arrays e)(a := []), world := world e @ [arrays e a]\<rparr>"
  let ?s = "\<lparr>listeners = [?l], projects = 0,
         env = \<lparr>objects = (\<lambda>_. \<lparr>id' = [], title = [], description = [], people = NaN,
                                    status = Active\<rparr>),
                arrays = (\<lambda>_. []), next_addr = 1, world = []\<rparr>,
         calls = []\<rparr>"
  have w: "well_formed ?s" by (simp add: well_formed_def allocated_def)
  have c: "\<forall>l\<in>set (listeners ?s). keeps_arrays l" by (simp add: keeps_arrays_def)
  show ?thesis
    using listeners_receive_copies [OF w c, of "lit ''a''" "lit ''b''" "Finite 2" "Finite (1 / 2)"]
    by (simp add: new_array_case new_array_def new_Project_def push_def)
qed

subsection \<open>Validation\<close>

text \<open>
  C4. \<^verbatim>\<open>validate\<close> returns true if and only if all present constraints pass, where
  \<^verbatim>\<open>minLength\<close> and \<^verbatim>\<open>maxLength\<close> constrain a string only and \<^verbatim>\<open>min\<close> and \<^verbatim>\<open>max\<close> a
  number only. \<^verbatim>\<open>validate\<close> reads its argument and assigns to a local variable only, so
  it is a function of its argument with no effect on any state.
\<close>

theorem validate_iff_all_present_constraints_pass:
  "validate i = all_present_constraints_pass i"
  by (cases "value i")
     (auto simp: validate_def all_present_constraints_pass_def if_present_def required_passes_def
      split: option.splits)

text \<open>
  The request for 3 people passes; the request for the description ``abcd'', of length 4
  under a \<^verbatim>\<open>minLength\<close> of 5, fails.
\<close>

theorem validate_iff_all_present_constraints_pass_witness:
  "validate \<lparr>value = Num (Finite 3), required = Some True, minLength = None,
             maxLength = None, min' = Some (Finite 1), max' = Some (Finite 5)\<rparr> \<and>
   \<not> validate \<lparr>value = Str (lit ''abcd''), required = Some True,
               minLength = Some (Finite 5), maxLength = None, min' = None, max' = None\<rparr>"
  using validate_iff_all_present_constraints_pass
      [of "\<lparr>value = Num (Finite 3), required = Some True, minLength = None,
             maxLength = None, min' = Some (Finite 1), max' = Some (Finite 5)\<rparr>"]
    validate_iff_all_present_constraints_pass
      [of "\<lparr>value = Str (lit ''abcd''), required = Some True,
               minLength = Some (Finite 5), maxLength = None, min' = None, max' = None\<rparr>"]
  by (simp add: all_present_constraints_pass_def if_present_def required_passes_def
      number_toString_not_blank js_ge_def js_length_def lit_def)

text \<open>
  C9. When \<^verbatim>\<open>required\<close> is true, \<^verbatim>\<open>validate\<close> returns true if and only if the text of the
  value, trimmed, is not empty and the other constraints pass. In particular a string of
  white space only fails, whatever the other constraints, and every number (0, NaN and
  the infinities included) passes the required check.
\<close>

theorem required_check:
  "(required i = Some True \<longrightarrow>
      validate i = (trim (toString (value i)) \<noteq> [] \<and> validate (i\<lparr>required := None\<rparr>))) \<and>
   ((\<forall>c\<in>set s. is_white_space c) \<longrightarrow>
      \<not> validate (i\<lparr>value := Str s, required := Some True\<rparr>)) \<and>
   validate \<lparr>value = Num n, required = Some True, minLength = None, maxLength = None,
             min' = None, max' = None\<rparr>"
proof (intro conjI impI)
  assume "required i = Some True"
  then show "validate i = (trim (toString (value i)) \<noteq> [] \<and> validate (i\<lparr>required := None\<rparr>))"
    by (cases "value i") (auto simp: validate_def split: option.splits)
next
  assume "\<forall>c\<in>set s. is_white_space c"
  then have "trim s = []" by (simp add: trim_Nil_iff)
  then show "\<not> validate (i\<lparr>value := Str s, required := Some True\<rparr>)"
    by (simp add: validate_def split: option.splits)
next
  show "validate \<lparr>value = Num n, required = Some True, minLength = None, maxLength = None,
             min' = None, max' = None\<rparr>"
    by (simp add: validate_def number_toString_not_blank)
qed

text \<open>Three spaces fail the required check; the number 0 passes it.\<close>

theorem required_check_witness:
  "\<not> validate \<lparr>value = Str (lit ''   ''), required = Some True, minLength = None,
               maxLength = None, min' = None, max' = None\<rparr> \<and>
   validate \<lparr>value = Num (Finite 0), required = Some True, minLength = None,
             maxLength = None, min' = None, max' = None\<rparr>"
proof -
  have ws: "\<forall>c\<in>set (lit ''   ''). is_white_space c"
    by (simp add: lit_def is_white_space_def)
  show ?thesis
    using ws required_check [of "\<lparr>value = Str (lit ''   ''), required = Some True,
        minLength = None, maxLength = None, min' = None, max' = None\<rparr>" "lit ''   ''" "Finite 0"]
    by (simp add: trim_Nil_iff)
qed

subsection \<open>The form\<close>

text \<open>
  C5. When one of the three validation requests built from the form fails (title:
  required; description: required, \<^verbatim>\<open>minLength\<close> 5; people: required, \<^verbatim>\<open>min\<close> 1, \<^verbatim>\<open>max\<close> 5,
  on the number that the unary \<^verbatim>\<open>+\<close> reads from the text), \<^verbatim>\<open>submitHandler\<close> changes
  nothing but the alerts, which get ``Invalid Input, please try again!'': the store's
  list, every array and every project are unchanged, no listener is called and the three
  fields of the form keep their text.
\<close>

theorem invalid_submission_rejected:
  fixes s :: "page app"
  defines "form \<equiv> projectInput (world (env s))"
  assumes "\<not> validate \<lparr>value = Str (titleInputElement form), required = Some True,
               minLength = None, maxLength = None, min' = None, max' = None\<rparr> \<or>
           \<not> validate \<lparr>value = Str (descriptionInputElement form), required = Some True,
               minLength = Some (Finite 5), maxLength = None, min' = None, max' = None\<rparr> \<or>
           \<not> validate \<lparr>value = Num (to_number (peopleInputElement form)), required = Some True,
               minLength = None, maxLength = None, min' = Some (Finite 1),
               max' = Some (Finite 5)\<rparr>"
  shows "submitHandler rnd s =
           on_world (\<lambda>w. w\<lparr>alerts := alerts w @ [lit ''Invalid Input, please try again!'']\<rparr>) s \<and>
         project_list (submitHandler rnd s) = project_list s \<and>
         arrays (env (submitHandler rnd s)) = arrays (env s) \<and>
         objects (env (submitHandler rnd s)) = objects (env s) \<and>
         calls_since s (submitHandler rnd s) = [] \<and>
         projectInput (world (env (submitHandler rnd s))) = projectInput (world (env s)) \<and>
         alerts (world (env (submitHandler rnd s))) =
           alerts (world (env s)) @ [lit ''Invalid Input, please try again!'']"
proof -
  have g: "gatherUserInput (world (env s)) =
      (None, (world (env s))\<lparr>alerts := alerts (world (env s))
          @ [lit ''Invalid Input, please try again!'']\<rparr>)"
    using assms(2) unfolding form_def gatherUserInput_def Let_def by (simp only: if_True)
  have eq: "submitHandler rnd s =
      on_world (\<lambda>w. w\<lparr>alerts := alerts w @ [lit ''Invalid Input, please try again!'']\<rparr>) s"
    by (simp add: submitHandler_def g on_world_def)
  show ?thesis
    unfolding eq by (simp add: on_world_fields calls_since_def)
qed

text \<open>The second scenario of the specification: an empty title.\<close>

theorem invalid_submission_rejected_witness:
  "project_list (submitHandler (Finite (1 / 2)) (enter [] (lit ''desc'') (lit ''3'') start)) = [] \<and>
   alerts (world (env (submitHandler (Finite (1 / 2))
       (enter [] (lit ''desc'') (lit ''3'') start)))) = [lit ''Invalid Input, please try again!''] \<and>
   projectInput (world (env (submitHandler (Finite (1 / 2))
       (enter [] (lit ''desc'') (lit ''3'') start)))) =
     \<lparr>titleInputElement = [], descriptionInputElement = lit ''desc'',
      peopleInputElement = lit ''3''\<rparr>"
proof -
  have v: "\<not> validate \<lparr>value = Str [], required = Some True, minLength = None,
      maxLength = None, min' = None, max' = None\<rparr>"
    by (simp add: validate_def trim_def)
  have a: "alerts (world (env start)) = []" by (simp add: start_def addListener_def)
  show ?thesis
    using invalid_submission_rejected [of "enter [] (lit ''desc'') (lit ''3'') start" "Finite (1 / 2)"] v
    by (simp add: enter_fields on_world_fields project_list_start a)
qed

text \<open>
  C8 as amended. A project admitted into the store by a validated submission has a
  people field that is a finite number from 1 to 5, both included (hence greater than 0,
  and an integer only when the text entered denotes one), and the status \<open>Active\<close>.
\<close>

theorem admitted_people_in_range:
  fixes s :: "page app"
  assumes "gatherUserInput (world (env s)) = (Some (t, d, p), w)"
    and "well_formed s" and "\<forall>l\<in>set (listeners s). confined l"
  shows "\<exists>q. p = Finite q \<and> 1 \<le> q \<and> q \<le> 5 \<and>
           project_list (submitHandler rnd s) =
             project_list s @ [\<lparr>id' = number_toString rnd, title = t, description = d,
                                 people = Finite q, status = Active\<rparr>]"
proof -
  from validate_people_range [OF gatherUserInput_Some(7) [OF assms(1)]]
  obtain q where q: "p = Finite q" "1 \<le> q" "q \<le> 5" by blast
  have "project_list (submitHandler rnd s) = project_list (addProjects t d p rnd s)"
    by (simp add: submitHandler_Some [OF assms(1)] on_world_fields)
  with q show ?thesis
    by (simp add: addProjects_frame(2) [OF assms(2,3)])
qed

text \<open>The submission ``Title'', ``valid desc'', ``3''.\<close>

theorem admitted_people_in_range_witness:
  "project_list (submitHandler (Finite (1 / 2))
       (enter (lit ''Title'') (lit ''valid desc'') (lit ''3'') start)) =
     [\<lparr>id' = lit ''0.5'', title = lit ''Title'', description = lit ''valid desc'',
       people = Finite 3, status = Active\<rparr>]"
  using admitted_people_in_range [OF gather_example, of "Finite (1 / 2)"]
  by (simp add: enter_fields well_formed_start confined_start project_list_start
      number_toString_half)

text \<open>
  C8 as stated fails: the submission ``Title'', ``valid desc'', ``1.5'' passes the three
  validation requests and puts a project with 1.5 people into the store.
\<close>

theorem people_not_integer_counterexample:
  "project_list (submitHandler (Finite (1 / 2))
       (enter (lit ''Title'') (lit ''valid desc'') (lit ''1.5'') start)) =
     [\<lparr>id' = lit ''0.5'', title = lit ''Title'', description = lit ''valid desc'',
       people = Finite (3 / 2), status = Active\<rparr>] \<and>
   \<not> is_integer (Finite (3 / 2))"
proof -
  let ?s = "enter (lit ''Title'') (lit ''valid desc'') (lit ''1.5'') start"
  have "well_formed ?s" "\<forall>l\<in>set (listeners ?s). confined l"
    by (simp_all add: enter_fields well_formed_start confined_start)
  from addProjects_frame(2) [OF this]
  have "project_list (submitHandler (Finite (1 / 2)) ?s) =
      [\<lparr>id' = lit ''0.5'', title = lit ''Title'', description = lit ''valid desc'',
        people = Finite (3 / 2), status = Active\<rparr>]"
    by (simp add: submitHandler_Some [OF gather_fraction] on_world_fields enter_fields
        project_list_start number_toString_half)
  moreover have "\<not> is_integer (Finite (3 / 2))" by code_simp
  ultimately show ?thesis by simp
qed

subsection \<open>The two lists\<close>

text \<open>
  C10. After a notification of the two listeners that the program registers, each was
  handed the store's full list, the array \<^verbatim>\<open>assignedProjects\<close> of the active list holds
  exactly the projects of that list with status \<open>Active\<close>, in order, and that of the
  finished list exactly those with status \<open>Finished\<close>; every project of the list is in
  exactly one of the two, and their lengths add up to the length of the list. The two
  arrays hold the very objects of the store's array. \<^verbatim>\<open>addProjects\<close> and \<^verbatim>\<open>moveProject\<close>
  end with this notification.
\<close>

theorem lists_partition_snapshot:
  fixes s :: "page app"
  assumes "listeners s = [list_listener active, list_listener finished]" and "allocated s"
  shows "(\<forall>x\<in>set (calls_since s (notify s)). snd (snd x) = project_list (notify s)) \<and>
         array_projects (env (notify s))
             (assignedProjects (projectLists (world (env (notify s))) active))
           = filter (\<lambda>p. status p = Active) (project_list (notify s)) \<and>
         array_projects (env (notify s))
             (assignedProjects (projectLists (world (env (notify s))) finished))
           = filter (\<lambda>p. status p = Finished) (project_list (notify s)) \<and>
         (\<forall>p\<in>set (project_list (notify s)).
            (p \<in> set (array_projects (env (notify s))
                        (assignedProjects (projectLists (world (env (notify s))) active)))) \<noteq>
            (p \<in> set (array_projects (env (notify s))
                        (assignedProjects (projectLists (world (env (notify s))) finished))))) \<and>
         length (array_projects (env (notify s))
                   (assignedProjects (projectLists (world (env (notify s))) active))) +
         length (array_projects (env (notify s))
                   (assignedProjects (projectLists (world (env (notify s))) finished))) =
           length (project_list (notify s)) \<and>
         arrays (env (notify s)) (assignedProjects (projectLists (world (env (notify s))) active))
           = filter (\<lambda>r. status (objects (env (notify s)) r) = Active)
               (arrays (env (notify s)) (projects (notify s))) \<and>
         arrays (env (notify s)) (assignedProjects (projectLists (world (env (notify s))) finished))
           = filter (\<lambda>r. status (objects (env (notify s)) r) = Finished)
               (arrays (env (notify s)) (projects (notify s)))"
proof -
  note n = notify_two_lists [OF assms]
  have keep: "project_list (notify s) = project_list s"
    by (simp add: project_list_def array_projects_def n(5,6,7))
  have act: "array_projects (env (notify s))
      (assignedProjects (projectLists (world (env (notify s))) active)) =
      filter (\<lambda>p. status p = Active) (project_list s)"
    by (simp add: array_projects_def n(1,5) project_list_def filter_map comp_def)
  have fin: "array_projects (env (notify s))
      (assignedProjects (projectLists (world (env (notify s))) finished)) =
      filter (\<lambda>p. status p = Finished) (project_list s)"
    by (simp add: array_projects_def n(2,5) project_list_def filter_map comp_def)
  have neg: "(\<lambda>p. status p = Finished) = (\<lambda>p. \<not> status p = Active)"
    by (rule ext) (metis ProjectStatus.exhaust ProjectStatus.distinct(1))
  have len: "length (filter (\<lambda>p. status p = Active) (project_list s)) +
      length (filter (\<lambda>p. status p = Finished) (project_list s)) = length (project_list s)"
    unfolding neg by (rule sum_length_filter_compl)
  have part: "\<forall>p\<in>set (project_list s).
      (p \<in> set (filter (\<lambda>p. status p = Active) (project_list s))) \<noteq>
      (p \<in> set (filter (\<lambda>p. status p = Finished) (project_list s)))"
    unfolding neg by auto
  have log: "\<forall>x\<in>set (calls_since s (notify s)). snd (snd x) = project_list s"
    by (simp add: n(8))
  show ?thesis
    unfolding keep act fin
    using len part log by (simp add: n(1,2,5,6,7))
qed

text \<open>After the submission ``Title'', ``valid desc'', 3 on the program at start.\<close>

theorem lists_partition_snapshot_witness:
  "array_projects
     (env (addProjects (lit ''Title'') (lit ''valid desc'') (Finite 3) (Finite (1 / 2)) start))
     (assignedProjects (projectLists (world (env (addProjects (lit ''Title'') (lit ''valid desc'')
        (Finite 3) (Finite (1 / 2)) start))) active)) =
     [\<lparr>id' = lit ''0.5'', title = lit ''Title'', description = lit ''valid desc'',
       people = Finite 3, status = Active\<rparr>] \<and>
   array_projects
     (env (addProjects (lit ''Title'') (lit ''valid desc'') (Finite 3) (Finite (1 / 2)) start))
     (assignedProjects (projectLists (world (env (addProjects (lit ''Title'') (lit ''valid desc'')
        (Finite 3) (Finite (1 / 2)) start))) finished)) = []"
proof -
  let ?new = "\<lparr>id' = lit ''0.5'', title = lit ''Title'', description = lit ''valid desc'',
       people = Finite 3, status = Active\<rparr>"
  let ?s1 = "start\<lparr>env := push (projects start) (next_addr (env start))
      (snd (new_Project ?new (env start)))\<rparr>"
  have eq: "addProjects (lit ''Title'') (lit ''valid desc'') (Finite 3) (Finite (1 / 2)) start
      = notify ?s1"
    by (simp add: addProjects_notify number_toString_half)
  have l: "listeners ?s1 = [list_listener active, list_listener finished]"
    by (simp add: listeners_start)
  have w: "well_formed ?s1" by (rule pushed_well_formed(1) [OF well_formed_start])
  have a: "allocated ?s1" by (rule well_formed_allocated [OF w])
  have c: "\<forall>l\<in>set (listeners ?s1). confined l"
    by (simp add: listeners_start confined_list_listener)
  have p: "project_list (notify ?s1) = [?new]"
    by (simp add: notify_project_list [OF w c] pushed_well_formed(2) [OF well_formed_start]
        project_list_start)
  show ?thesis
    unfolding eq using lists_partition_snapshot [OF l a] by (simp add: p)
qed

end
